theory Spec2Isabelle
  imports Complex_Main "HOL-Library.AList" "HOL-Library.Sublist" "HOL-Library.Log_Nat"
begin

section \<open>Data model\<close>

text \<open>
  A JavaScript number is an IEEE-754 double. A finite one is modelled by the real it
  denotes, so comparisons are those of the reals. What the JavaScript runtime computes
  (the sum and the quotient of two numbers, which round; \<open>Number(s)\<close>; \<open>toLowerCase\<close>;
  the period a timer gets) is not code of this repository: the functions that use it
  take it from a record \<open>Runtime\<close>, and the theorems hold for every runtime.
  Timestamps (\<open>Date.now()\<close>) and the retention period are integers. A JavaScript \<open>Map\<close>
  keeps its keys in insertion order and \<open>set\<close> either replaces the value of a key in
  place or appends the key; that is \<open>AList.update\<close> on an association list, read with
  \<open>map_of\<close>. A character of a string stands for one UTF-16 code unit below 256.
\<close>

text \<open>What \<open>Number(s)\<close> returns.\<close>

datatype js_number = NaN | PlusInfinity | MinusInfinity | Finite real

text \<open>
  The built-in operations the code calls: \<open>String.prototype.toLowerCase\<close>, \<open>Number\<close> on
  a string, \<open>+\<close> and \<open>/\<close> on two finite numbers (their results in this code are finite:
  no divisor is zero), and the period in milliseconds that \<open>setInterval\<close> arms for the
  delay it is given.
\<close>

record Runtime =
  toLowerCase :: "string \<Rightarrow> string"
  toNumber :: "string \<Rightarrow> js_number"
  js_add :: "real \<Rightarrow> real \<Rightarrow> real"
  js_divide :: "real \<Rightarrow> real \<Rightarrow> real"
  timerPeriod :: "real \<Rightarrow> real"

text \<open>\<open>types.ts\<close>: \<open>ExtensionMetrics\<close>.\<close>

record ExtensionMetrics =
  metric_id :: string
  displayName :: string
  version :: string
  isActive :: bool
  cpuUsage :: real
  memoryUsage :: real
  timestamp :: int
  activationTime :: "real option"
  estimatedCpuUsage :: "real option"
  estimatedMemoryUsage :: "real option"
  processCpuUsage :: "real option"
  processMemoryUsage :: "real option"
  subprocessCount :: "nat option"

text \<open>\<open>types.ts\<close>: \<open>PerformanceHistory\<close> with its nested \<open>averages\<close> and \<open>peaks\<close>.\<close>

record Averages =
  avg_cpu :: real
  avg_memory :: real

record Peak =
  peak_value :: real
  peak_timestamp :: int

record Peaks =
  peak_cpu :: Peak
  peak_memory :: Peak

record PerformanceHistory =
  extensionId :: string
  metrics :: "ExtensionMetrics list"
  averages :: Averages
  peaks :: Peaks

type_synonym history_map = "(string \<times> PerformanceHistory) list"

text \<open>\<open>types.ts\<close>: \<open>PerformanceAlert\<close>.\<close>

datatype alert_kind = Cpu | Memory

record PerformanceAlert =
  alert_type :: alert_kind
  alert_extensionId :: string
  extensionName :: string
  alert_value :: real
  threshold :: real
  alert_timestamp :: int

text \<open>
  The configuration store read by \<open>ConfigManager.getConfig\<close>: a key the user has not
  set is \<open>None\<close>, and \<open>getConfig\<close> then returns the default it was called with.
  Nothing in \<open>getConfig\<close> validates the stored number.
\<close>

record ExtPerfConfig =
  cfg_monitoringInterval :: "real option"
  alertThresholds_cpu :: "real option"
  alertThresholds_memory :: "real option"
  historyRetentionDays :: "int option"

definition getConfig :: "'a option \<Rightarrow> 'a \<Rightarrow> 'a" where
  "getConfig stored defaultValue = (case stored of None \<Rightarrow> defaultValue | Some v \<Rightarrow> v)"

text \<open>\<open>constants.ts\<close>: \<open>DEFAULTS\<close>.\<close>

definition MONITORING_INTERVAL :: real where
  "MONITORING_INTERVAL = 5000"

definition CPU_ALERT_THRESHOLD :: real where
  "CPU_ALERT_THRESHOLD = 80"

definition MEMORY_ALERT_THRESHOLD :: real where
  "MEMORY_ALERT_THRESHOLD = 100"

definition HISTORY_RETENTION_DAYS :: int where
  "HISTORY_RETENTION_DAYS = 7"

section \<open>History ledger (\<open>performanceMonitor.ts\<close>)\<close>

text \<open>
  \<open>xs.slice(-n)\<close> for \<open>n > 0\<close>: the last \<open>n\<close> elements, or all of \<open>xs\<close> when it is
  shorter (the subtraction on \<open>nat\<close> stops at 0, as the start index of \<open>slice\<close> does).
\<close>

definition slice_last :: "nat \<Rightarrow> 'a list \<Rightarrow> 'a list" where
  "slice_last n xs = drop (length xs - n) xs"

text \<open>The record \<open>updateHistory\<close> creates when the map has none for the id.\<close>

definition newHistory :: "string \<Rightarrow> PerformanceHistory" where
  "newHistory i =
     \<lparr>extensionId = i, metrics = [],
      averages = \<lparr>avg_cpu = 0, avg_memory = 0\<rparr>,
      peaks = \<lparr>peak_cpu = \<lparr>peak_value = 0, peak_timestamp = 0\<rparr>,
               peak_memory = \<lparr>peak_value = 0, peak_timestamp = 0\<rparr>\<rparr>\<rparr>"

text \<open>
  \<open>xs.reduce((sum, m) => sum + f(m), 0) / xs.length\<close>: the sum runs from the left, and
  the sum at each step and the quotient are the runtime's.
\<close>

definition reduceAverage :: "Runtime \<Rightarrow> ('a \<Rightarrow> real) \<Rightarrow> 'a list \<Rightarrow> real" where
  "reduceAverage rt f xs =
     js_divide rt (foldl (\<lambda>sum m. js_add rt sum (f m)) 0 xs) (real (length xs))"

text \<open>
  The body of \<open>updateHistory\<close> after the record is found or created: push, cap at 1000,
  recompute the averages over the last 100, update the peaks.
\<close>

definition recordMetric :: "Runtime \<Rightarrow> PerformanceHistory \<Rightarrow> ExtensionMetrics \<Rightarrow> PerformanceHistory" where
  "recordMetric rt history metric =
     (let pushed = metrics history @ [metric];
          kept = (if length pushed > 1000 then slice_last 1000 pushed else pushed);
          recentMetrics = slice_last 100 kept;
          cpuAvg = reduceAverage rt cpuUsage recentMetrics;
          memoryAvg = reduceAverage rt memoryUsage recentMetrics;
          cpuPeak = (if cpuUsage metric > peak_value (peak_cpu (peaks history))
                     then \<lparr>peak_value = cpuUsage metric, peak_timestamp = timestamp metric\<rparr>
                     else peak_cpu (peaks history));
          memoryPeak = (if memoryUsage metric > peak_value (peak_memory (peaks history))
                        then \<lparr>peak_value = memoryUsage metric, peak_timestamp = timestamp metric\<rparr>
                        else peak_memory (peaks history))
      in history\<lparr>metrics := kept,
                 averages := \<lparr>avg_cpu = cpuAvg, avg_memory = memoryAvg\<rparr>,
                 peaks := \<lparr>peak_cpu = cpuPeak, peak_memory = memoryPeak\<rparr>\<rparr>)"

definition lookupOrNew :: "history_map \<Rightarrow> string \<Rightarrow> PerformanceHistory" where
  "lookupOrNew performanceHistory i =
     (case map_of performanceHistory i of None \<Rightarrow> newHistory i | Some history \<Rightarrow> history)"

definition updateHistory :: "Runtime \<Rightarrow> history_map \<Rightarrow> ExtensionMetrics \<Rightarrow> history_map" where
  "updateHistory rt performanceHistory metric =
     AList.update (metric_id metric)
       (recordMetric rt (lookupOrNew performanceHistory (metric_id metric)) metric)
       performanceHistory"

text \<open>\<open>clearHistory\<close>: the map is emptied.\<close>

definition clearHistory :: "history_map \<Rightarrow> history_map" where
  "clearHistory performanceHistory = []"

text \<open>
  \<open>cleanupOldData\<close>, given the value of \<open>Date.now()\<close>: every record keeps the points whose
  timestamp is greater than the cutoff; the second component is \<open>cleanedCount\<close>.
\<close>

definition cutoffTime :: "ExtPerfConfig \<Rightarrow> int \<Rightarrow> int" where
  "cutoffTime config now =
     now - getConfig (historyRetentionDays config) HISTORY_RETENTION_DAYS * 24 * 60 * 60 * 1000"

definition cleanupRecord :: "int \<Rightarrow> PerformanceHistory \<Rightarrow> PerformanceHistory" where
  "cleanupRecord cutoff history =
     history\<lparr>metrics := filter (\<lambda>m. timestamp m > cutoff) (metrics history)\<rparr>"

definition cleanupOldData :: "ExtPerfConfig \<Rightarrow> int \<Rightarrow> history_map \<Rightarrow> history_map \<times> nat" where
  "cleanupOldData config now performanceHistory =
     (let cutoff = cutoffTime config now
      in (map (\<lambda>(k, history). (k, cleanupRecord cutoff history)) performanceHistory,
          foldl (\<lambda>cleanedCount (k, history).
                   cleanedCount + (length (metrics history) - length (metrics (cleanupRecord cutoff history))))
                0 performanceHistory))"

section \<open>Alert evaluator (\<open>performanceMonitor.ts\<close>)\<close>

text \<open>
  \<open>checkAlerts\<close>: the alerts handed to \<open>showAlert\<close>, in the order of the calls.
\<close>

definition checkAlerts :: "ExtPerfConfig \<Rightarrow> ExtensionMetrics \<Rightarrow> PerformanceAlert list" where
  "checkAlerts config metric =
     (let cpuThreshold = getConfig (alertThresholds_cpu config) CPU_ALERT_THRESHOLD;
          memoryThreshold = getConfig (alertThresholds_memory config) MEMORY_ALERT_THRESHOLD
      in (if cpuUsage metric > cpuThreshold
          then [\<lparr>alert_type = Cpu, alert_extensionId = metric_id metric,
                 extensionName = displayName metric, alert_value = cpuUsage metric,
                 threshold = cpuThreshold, alert_timestamp = timestamp metric\<rparr>]
          else [])
         @
         (if memoryUsage metric > memoryThreshold
          then [\<lparr>alert_type = Memory, alert_extensionId = metric_id metric,
                 extensionName = displayName metric, alert_value = memoryUsage metric,
                 threshold = memoryThreshold, alert_timestamp = timestamp metric\<rparr>]
          else []))"

section \<open>Component matcher (\<open>subprocessUsage.ts\<close>)\<close>

text \<open>\<open>value.replace(/\\/g, '/').toLowerCase()\<close>; \<open>CHR 0x5C\<close> is the backslash.\<close>

definition normalizePath :: "Runtime \<Rightarrow> string \<Rightarrow> string" where
  "normalizePath rt v = toLowerCase rt (map (\<lambda>c. if c = CHR 0x5C then CHR ''/'' else c) v)"

text \<open>\<open>haystack.includes(needle)\<close>: the needle starts at some position of the haystack.\<close>

fun js_includes :: "string \<Rightarrow> string \<Rightarrow> bool" where
  "js_includes [] needle = (needle = [])"
| "js_includes (c # haystack) needle = (prefix needle (c # haystack) \<or> js_includes haystack needle)"

record ExtensionIndexEntry =
  entry_id :: string
  entry_name :: string
  path :: string
  idLower :: string

text \<open>One turn of the loop of \<open>findBestMatch\<close>, on the variable \<open>best\<close>.\<close>

definition considerExtension ::
  "string \<Rightarrow> ExtensionIndexEntry option \<Rightarrow> ExtensionIndexEntry \<Rightarrow> ExtensionIndexEntry option" where
  "considerExtension haystack best extension =
     (if js_includes haystack (path extension) \<or> js_includes haystack (idLower extension)
      then (case best of
              None \<Rightarrow> Some extension
            | Some b \<Rightarrow> if length (path extension) > length (path b) then Some extension else best)
      else best)"

definition findBestMatch ::
  "Runtime \<Rightarrow> string \<Rightarrow> ExtensionIndexEntry list \<Rightarrow> ExtensionIndexEntry option" where
  "findBestMatch rt command extensions =
     (if command = [] then None
      else foldl (considerExtension (normalizePath rt command)) None extensions)"

section \<open>Process tree walker (\<open>subprocessUsage.ts\<close>)\<close>

datatype error = Error string

record PsTreeEntry =
  PID :: string
  PPID :: string
  COMMAND :: "string option"
  COMM :: "string option"
  COMMAND_LINE :: "string option"

text \<open>
  An awaited call either resolves or rejects (\<open>Inr\<close>, \<open>Inl\<close>). The walk recurses on
  what the listing primitive returns, which nothing bounds, so it runs on fuel: \<open>None\<close>
  is a walk that has not returned within the fuel.
\<close>

type_synonym walk_state = "PsTreeEntry list \<times> real set"

text \<open>A \<open>for ... of\<close> loop whose body awaits: the first rejection ends the loop.\<close>

fun forEachAwait :: "('a \<Rightarrow> 's \<Rightarrow> (error + 's) option) \<Rightarrow> 'a list \<Rightarrow> 's \<Rightarrow> (error + 's) option" where
  "forEachAwait body [] s = Some (Inr s)"
| "forEachAwait body (x # xs) s =
     (case body x s of
        None \<Rightarrow> None
      | Some (Inl e) \<Rightarrow> Some (Inl e)
      | Some (Inr s') \<Rightarrow> forEachAwait body xs s')"

text \<open>
  The inner function \<open>collect\<close> of \<open>getAllDescendants\<close>, on the pair
  \<open>(allChildren, visited)\<close>; \<open>getProcessTree\<close> is the listing primitive (\<open>ps-tree\<close>), whose
  rejection is \<open>Inl\<close>. A child is pushed and descended into when
  \<open>Number.isFinite(childPid) && childPid > 0\<close>.
\<close>

fun collect ::
  "Runtime \<Rightarrow> nat \<Rightarrow> (real \<Rightarrow> error + PsTreeEntry list) \<Rightarrow> real \<Rightarrow> walk_state \<Rightarrow>
   (error + walk_state) option" where
  "collect rt 0 getProcessTree pid s = None"
| "collect rt (Suc fuel) getProcessTree pid s =
     (if pid \<in> snd s then Some (Inr s)
      else
        (case getProcessTree pid of
           Inl e \<Rightarrow> Some (Inl e)
         | Inr children \<Rightarrow>
             forEachAwait
               (\<lambda>child s'.
                  case toNumber rt (PID child) of
                    Finite childPid \<Rightarrow>
                      if childPid > 0
                      then collect rt fuel getProcessTree childPid (fst s' @ [child], snd s')
                      else Some (Inr s')
                  | _ \<Rightarrow> Some (Inr s'))
               children (fst s, insert pid (snd s))))"

definition getAllDescendants ::
  "Runtime \<Rightarrow> nat \<Rightarrow> (real \<Rightarrow> error + PsTreeEntry list) \<Rightarrow> real \<Rightarrow>
   (error + PsTreeEntry list) option" where
  "getAllDescendants rt fuel getProcessTree rootPid =
     (case collect rt fuel getProcessTree rootPid ([], {}) of
        None \<Rightarrow> None
      | Some (Inl e) \<Rightarrow> Some (Inl e)
      | Some (Inr s) \<Rightarrow> Some (Inr (fst s)))"

text \<open>\<open>a || b\<close> on an optional string: \<open>undefined\<close> and the empty string are falsy.\<close>

definition orElse :: "string option \<Rightarrow> string \<Rightarrow> string" where
  "orElse a b = (case a of None \<Rightarrow> b | Some c \<Rightarrow> if c \<noteq> [] then c else b)"

text \<open>\<open>entry.COMMAND_LINE || entry.COMMAND || entry.COMM || ''\<close>.\<close>

definition resolveCommand :: "PsTreeEntry \<Rightarrow> string" where
  "resolveCommand entry = orElse (COMMAND_LINE entry) (orElse (COMMAND entry) (orElse (COMM entry) []))"

section \<open>Subprocess attribution (\<open>subprocessUsage.ts\<close>)\<close>

record PidusageStat =
  stat_cpu :: real
  stat_memory :: real

record SubprocessUsage =
  pid :: real
  ppid :: js_number
  command :: string
  cpu :: real
  memory :: real

record ExtensionSubprocessStats =
  stats_extensionId :: string
  totalCpu :: real
  totalMemory :: real
  processCount :: nat
  processes :: "SubprocessUsage list"

type_synonym stats_map = "(string \<times> ExtensionSubprocessStats) list"

text \<open>
  An installed extension as the host lists it (\<open>vscode.Extension\<close>, read by the
  attribution through \<open>ExtensionLike\<close>); \<open>packageJSON\<close> and its fields may be undefined.
\<close>

record PackageJSON =
  pkg_displayName :: "string option"
  pkg_version :: "string option"

record Extension =
  ext_id :: string
  extensionPath :: string
  packageJSON :: "PackageJSON option"
  ext_isActive :: bool

record CollectSubprocessStatsOptions =
  pidToExtensionId :: "(real \<times> string) list option"
  rootPid :: "real option"
  debug :: bool

text \<open>
  The operating system as the attribution reads it: \<open>process.pid\<close>, the listing
  primitive \<open>ps-tree\<close> and the sampling primitive \<open>pidusage\<close>, whose result is keyed by pid.
\<close>

record OS =
  process_pid :: real
  psTree :: "real \<Rightarrow> error + PsTreeEntry list"
  pidusage :: "real list \<Rightarrow> error + (real \<times> PidusageStat) list"

text \<open>\<open>extension.packageJSON?.displayName || extension.id\<close>.\<close>

definition displayNameOf :: "Extension \<Rightarrow> string" where
  "displayNameOf extension =
     (case packageJSON extension of
        None \<Rightarrow> ext_id extension
      | Some pkg \<Rightarrow>
          (case pkg_displayName pkg of
             None \<Rightarrow> ext_id extension
           | Some n \<Rightarrow> if n \<noteq> [] then n else ext_id extension))"

definition indexExtension :: "Runtime \<Rightarrow> Extension \<Rightarrow> ExtensionIndexEntry" where
  "indexExtension rt extension =
     \<lparr>entry_id = ext_id extension, entry_name = displayNameOf extension,
      path = normalizePath rt (extensionPath extension), idLower = toLowerCase rt (ext_id extension)\<rparr>"

text \<open>\<open>children.map(child => Number(child.PID)).filter(pid => Number.isFinite(pid) && pid > 0)\<close>.\<close>

definition sampledPids :: "Runtime \<Rightarrow> PsTreeEntry list \<Rightarrow> real list" where
  "sampledPids rt children =
     concat (map (\<lambda>child. case toNumber rt (PID child) of
                             Finite p \<Rightarrow> if p > 0 then [p] else []
                           | _ \<Rightarrow> []) children)"

text \<open>\<open>Number(child.PPID) || 0\<close>: NaN and 0 are falsy.\<close>

definition ppidOf :: "Runtime \<Rightarrow> PsTreeEntry \<Rightarrow> js_number" where
  "ppidOf rt child = (case toNumber rt (PPID child) of NaN \<Rightarrow> Finite 0 | n \<Rightarrow> n)"

text \<open>
  One turn of the aggregation loop of \<open>collectSubprocessStats\<close>, on \<open>statsByExtension\<close>.
  The \<open>debug\<close> option only writes to the console and is left out.
\<close>

definition attributeChild ::
  "Runtime \<Rightarrow> CollectSubprocessStatsOptions option \<Rightarrow> ExtensionIndexEntry list \<Rightarrow>
   (string \<times> ExtensionIndexEntry) list \<Rightarrow> (real \<times> PidusageStat) list \<Rightarrow>
   stats_map \<Rightarrow> PsTreeEntry \<Rightarrow> stats_map" where
  "attributeChild rt options indexedExtensions extensionsById usageStats statsByExtension child =
     (case toNumber rt (PID child) of
        Finite p \<Rightarrow>
          (case map_of usageStats p of
             None \<Rightarrow> statsByExtension
           | Some usage \<Rightarrow>
               (let cmd = resolveCommand child;
                    forcedExtensionId =
                      (case options of
                         None \<Rightarrow> None
                       | Some opts \<Rightarrow>
                           (case pidToExtensionId opts of
                              None \<Rightarrow> None
                            | Some forced \<Rightarrow> map_of forced p));
                    matched =
                      (case forcedExtensionId of
                         None \<Rightarrow> findBestMatch rt cmd indexedExtensions
                       | Some i \<Rightarrow>
                           if i \<noteq> [] then map_of extensionsById i
                           else findBestMatch rt cmd indexedExtensions)
                in (case matched of
                      None \<Rightarrow> statsByExtension
                    | Some m \<Rightarrow>
                        (let entry = \<lparr>pid = p,
                                      ppid = ppidOf rt child,
                                      command = cmd,
                                      cpu = stat_cpu usage,
                                      memory = (if stat_memory usage \<noteq> 0
                                                then js_divide rt (stat_memory usage) (1024 * 1024)
                                                else 0)\<rparr>;
                             existing =
                               (case map_of statsByExtension (entry_id m) of
                                  Some e \<Rightarrow> e
                                | None \<Rightarrow> \<lparr>stats_extensionId = entry_id m, totalCpu = 0,
                                            totalMemory = 0, processCount = 0, processes = []\<rparr>)
                         in AList.update (entry_id m)
                              (existing\<lparr>totalCpu := js_add rt (totalCpu existing) (cpu entry),
                                        totalMemory := js_add rt (totalMemory existing) (memory entry),
                                        processCount := processCount existing + 1,
                                        processes := processes existing @ [entry]\<rparr>)
                              statsByExtension))))
      | _ \<Rightarrow> statsByExtension)"

text \<open>
  What \<open>collectSubprocessStats\<close> does once the descendants are listed: the two early
  returns, the sampling under \<open>try\<close>/\<open>catch\<close>, the aggregation loop.
\<close>

definition attributeChildren ::
  "Runtime \<Rightarrow> OS \<Rightarrow> Extension list \<Rightarrow> CollectSubprocessStatsOptions option \<Rightarrow>
   PsTreeEntry list \<Rightarrow> stats_map" where
  "attributeChildren rt os extensions options children =
     (let indexedExtensions = map (indexExtension rt) extensions;
          extensionsById = foldl (\<lambda>m entry. AList.update (entry_id entry) entry m) [] indexedExtensions
      in if children = [] then []
         else if sampledPids rt children = [] then []
         else (case pidusage os (sampledPids rt children) of
                 Inl e \<Rightarrow> []
               | Inr usageStats \<Rightarrow>
                   foldl (attributeChild rt options indexedExtensions extensionsById usageStats)
                     [] children))"

text \<open>\<open>options?.rootPid ?? process.pid\<close>.\<close>

definition walkRoot :: "OS \<Rightarrow> CollectSubprocessStatsOptions option \<Rightarrow> real" where
  "walkRoot os options =
     (case options of
        None \<Rightarrow> process_pid os
      | Some opts \<Rightarrow> (case rootPid opts of None \<Rightarrow> process_pid os | Some r \<Rightarrow> r))"

definition collectSubprocessStats ::
  "Runtime \<Rightarrow> nat \<Rightarrow> OS \<Rightarrow> Extension list \<Rightarrow> CollectSubprocessStatsOptions option \<Rightarrow>
   (error + stats_map) option" where
  "collectSubprocessStats rt fuel os extensions options =
     (case getAllDescendants rt fuel (psTree os) (walkRoot os options) of
        None \<Rightarrow> None
      | Some (Inl e) \<Rightarrow> Some (Inl e)
      | Some (Inr children) \<Rightarrow> Some (Inr (attributeChildren rt os extensions options children)))"

text \<open>
  The second copy of \<open>collectSubprocessStats\<close> in the repository takes no options and
  lists the children of \<open>process.pid\<close> with one call of the listing primitive.
\<close>

definition collectSubprocessStats_direct :: "Runtime \<Rightarrow> OS \<Rightarrow> Extension list \<Rightarrow> error + stats_map" where
  "collectSubprocessStats_direct rt os extensions =
     (case psTree os (process_pid os) of
        Inl e \<Rightarrow> Inl e
      | Inr children \<Rightarrow> Inr (attributeChildren rt os extensions None children))"

section \<open>Sampling rounds and the scheduler (\<open>performanceMonitor.ts\<close>)\<close>

text \<open>
  What a round reads from outside the monitor: the installed extensions, the
  configuration, the operating system, the JavaScript runtime, \<open>Date.now()\<close>, and the
  values the estimate heuristics return in this round (they draw from \<open>Math.random\<close>).
\<close>

record Host =
  allExtensions :: "Extension list"
  config :: ExtPerfConfig
  os :: OS
  runtime :: Runtime
  dateNow :: int
  estimateCpuUsage :: "Extension \<Rightarrow> real"
  estimateMemoryUsage :: "Extension \<Rightarrow> real"
  getActivationTime :: "Extension \<Rightarrow> real"

text \<open>Lines written to the output channel; \<open>AlertShown\<close> stands for one call of \<open>showAlert\<close>.\<close>

datatype log_line =
  StartingMonitoring real
| MonitoringStopped
| ErrorCollectingSubprocessStats error
| AlertShown PerformanceAlert

text \<open>
  The fields of \<open>PerformanceMonitor\<close>; \<open>monitoringInterval\<close> holds the period in
  milliseconds of the timer that \<open>setInterval\<close> has armed, \<open>None\<close> when no timer is armed.
\<close>

record PerformanceMonitor =
  monitoringInterval :: "real option"
  performanceHistory :: history_map
  currentMetrics :: "ExtensionMetrics list"
  isMonitoringActive :: bool
  outputChannel :: "log_line list"
  subprocessStats :: stats_map

text \<open>The metric \<open>collectMetrics\<close> builds for one extension.\<close>

definition buildMetric :: "Host \<Rightarrow> stats_map \<Rightarrow> int \<Rightarrow> Extension \<Rightarrow> ExtensionMetrics" where
  "buildMetric host stats ts extension =
     (let subprocessInfo = map_of stats (ext_id extension);
          estimatedCpu = estimateCpuUsage host extension;
          estimatedMemory = estimateMemoryUsage host extension;
          processCpu = (case subprocessInfo of None \<Rightarrow> 0 | Some i \<Rightarrow> totalCpu i);
          processMemory = (case subprocessInfo of None \<Rightarrow> 0 | Some i \<Rightarrow> totalMemory i);
          count = (case subprocessInfo of None \<Rightarrow> 0 | Some i \<Rightarrow> processCount i);
          useProcessUsage = (count > 0)
      in \<lparr>metric_id = ext_id extension,
          displayName = displayNameOf extension,
          version = (case packageJSON extension of
                       None \<Rightarrow> ''unknown''
                     | Some pkg \<Rightarrow>
                         (case pkg_version pkg of
                            None \<Rightarrow> ''unknown''
                          | Some v \<Rightarrow> if v \<noteq> [] then v else ''unknown'')),
          isActive = ext_isActive extension,
          cpuUsage = (if useProcessUsage then processCpu else estimatedCpu),
          memoryUsage = (if useProcessUsage then processMemory else estimatedMemory),
          timestamp = ts,
          activationTime = (if ext_isActive extension then Some (getActivationTime host extension) else None),
          estimatedCpuUsage = Some estimatedCpu,
          estimatedMemoryUsage = Some estimatedMemory,
          processCpuUsage = Some processCpu,
          processMemoryUsage = Some processMemory,
          subprocessCount = Some count\<rparr>)"

text \<open>
  One turn of the loop of \<open>collectMetrics\<close> over the extensions, on the local list
  \<open>metrics\<close> and the monitor.
\<close>

definition collectExtension ::
  "Host \<Rightarrow> stats_map \<Rightarrow> int \<Rightarrow> ExtensionMetrics list \<times> PerformanceMonitor \<Rightarrow> Extension \<Rightarrow>
   ExtensionMetrics list \<times> PerformanceMonitor" where
  "collectExtension host stats ts acc extension =
     (if prefix ''vscode.'' (ext_id extension) then acc
      else
        (let metric = buildMetric host stats ts extension;
             monitor = snd acc
         in (fst acc @ [metric],
             monitor\<lparr>performanceHistory :=
                       updateHistory (runtime host) (performanceHistory monitor) metric,
                     outputChannel := outputChannel monitor @ map AlertShown (checkAlerts (config host) metric)\<rparr>)))"

text \<open>
  \<open>collectMetrics\<close>: a rejected \<open>collectSubprocessStats\<close> is caught and logged, and the
  round goes on with the empty map. The result is \<open>None\<close> only when the walk has not
  returned within the fuel. The event fired at the end and the save to the persistent
  store, which is under its own \<open>try\<close>/\<open>catch\<close>, leave the monitor as it is and are
  left out.
\<close>

definition collectMetrics ::
  "nat \<Rightarrow> Host \<Rightarrow> PerformanceMonitor \<Rightarrow> (ExtensionMetrics list \<times> PerformanceMonitor) option" where
  "collectMetrics fuel host monitor =
     (case collectSubprocessStats (runtime host) fuel (os host) (allExtensions host) None of
        None \<Rightarrow> None
      | Some outcome \<Rightarrow>
          (let caught = (case outcome of
                           Inl e \<Rightarrow> ([], monitor\<lparr>outputChannel :=
                                          outputChannel monitor @ [ErrorCollectingSubprocessStats e]\<rparr>)
                         | Inr stats \<Rightarrow> (stats, monitor));
               stats = fst caught;
               monitor1 = (snd caught)\<lparr>subprocessStats := stats\<rparr>;
               looped = foldl (collectExtension host stats (dateNow host)) ([], monitor1) (allExtensions host)
           in Some (fst looped, (snd looped)\<lparr>currentMetrics := fst looped\<rparr>)))"

text \<open>
  \<open>startMonitoring\<close>: the value read from the configuration is the delay given to
  \<open>setInterval\<close>, and the timer has the period the runtime arms for that delay.
\<close>

definition startMonitoring :: "nat \<Rightarrow> Host \<Rightarrow> PerformanceMonitor \<Rightarrow> PerformanceMonitor option" where
  "startMonitoring fuel host monitor =
     (if isMonitoringActive monitor then Some monitor
      else
        (let interval = getConfig (cfg_monitoringInterval (config host)) MONITORING_INTERVAL;
             monitor1 = monitor\<lparr>isMonitoringActive := True,
                                outputChannel := outputChannel monitor @ [StartingMonitoring interval]\<rparr>
         in (case collectMetrics fuel host monitor1 of
               None \<Rightarrow> None
             | Some r \<Rightarrow> Some ((snd r)\<lparr>monitoringInterval := Some (timerPeriod (runtime host) interval)\<rparr>))))"

definition stopMonitoring :: "PerformanceMonitor \<Rightarrow> PerformanceMonitor" where
  "stopMonitoring monitor =
     monitor\<lparr>monitoringInterval := None, isMonitoringActive := False,
             outputChannel := outputChannel monitor @ [MonitoringStopped]\<rparr>"

section \<open>Notions used to state the properties\<close>

text \<open>The points of a sequence of inserts that go to the record of the component \<open>k\<close>.\<close>

definition inserted :: "string \<Rightarrow> ExtensionMetrics list \<Rightarrow> ExtensionMetrics list" where
  "inserted k ms = filter (\<lambda>m. metric_id m = k) ms"


text \<open>
  A candidate matches a normalized command line when its install path or its lowercased
  id occurs in it as a contiguous substring.
\<close>

definition matchesCommand :: "string \<Rightarrow> ExtensionIndexEntry \<Rightarrow> bool" where
  "matchesCommand haystack e \<longleftrightarrow> sublist (path e) haystack \<or> sublist (idLower e) haystack"

text \<open>The entry \<open>c\<close> carries the pid \<open>p\<close>, and the walk descends into it.\<close>

definition validPid :: "Runtime \<Rightarrow> PsTreeEntry \<Rightarrow> real \<Rightarrow> bool" where
  "validPid rt c p \<longleftrightarrow> toNumber rt (PID c) = Finite p \<and> 0 < p"

text \<open>
  The pids a walk from \<open>r0\<close> asks the listing primitive about when no listing fails:
  the root, and the pid of every entry in the listing of such a pid.
\<close>

inductive_set descended ::
  "Runtime \<Rightarrow> (real \<Rightarrow> error + PsTreeEntry list) \<Rightarrow> real \<Rightarrow> real set"
  for rt :: Runtime and gpt :: "real \<Rightarrow> error + PsTreeEntry list" and r0 :: real where
  root: "r0 \<in> descended rt gpt r0"
| child: "p \<in> descended rt gpt r0 \<Longrightarrow> gpt p = Inr l \<Longrightarrow> c \<in> set l \<Longrightarrow> validPid rt c q
          \<Longrightarrow> q \<in> descended rt gpt r0"

text \<open>
  What a returned call of \<open>collect\<close> has done to the pair \<open>(allChildren, visited)\<close>:
  \<open>visited\<close> has grown; every pid added to it was listed without a failure, and the
  pids of its listing are in \<open>visited\<close>; every entry added to \<open>allChildren\<close> has its pid
  in \<open>visited\<close>.
\<close>

definition walked ::
  "Runtime \<Rightarrow> (real \<Rightarrow> error + PsTreeEntry list) \<Rightarrow> walk_state \<Rightarrow> walk_state \<Rightarrow> bool" where
  "walked rt gpt s s' \<longleftrightarrow>
     snd s \<subseteq> snd s'
     \<and> (\<exists>new. fst s' = fst s @ new \<and> (\<forall>c\<in>set new. \<forall>p. validPid rt c p \<longrightarrow> p \<in> snd s'))
     \<and> (\<forall>p\<in>snd s' - snd s.
           \<exists>l. gpt p = Inr l \<and> (\<forall>c\<in>set l. \<forall>q. validPid rt c q \<longrightarrow> q \<in> snd s'))"

text \<open>
  A set of pids that the listing primitive does not leave: a process table. Every
  operating system has a finite one.
\<close>

definition listsWithin :: "Runtime \<Rightarrow> (real \<Rightarrow> error + PsTreeEntry list) \<Rightarrow> real set \<Rightarrow> bool" where
  "listsWithin rt gpt U \<longleftrightarrow>
     (\<forall>p\<in>U. \<forall>l. gpt p = Inr l \<longrightarrow> (\<forall>c\<in>set l. \<forall>q. validPid rt c q \<longrightarrow> q \<in> U))"

text \<open>The extensions a round reports on: all but the built-in ones.\<close>

definition userExtension :: "Extension \<Rightarrow> bool" where
  "userExtension extension \<longleftrightarrow> \<not> prefix ''vscode.'' (ext_id extension)"

section \<open>Concrete inputs\<close>

subsection \<open>A runtime\<close>

text \<open>
  The operations of Node.js on the inputs used below. \<open>asciiLowerCase\<close> is
  \<open>toLowerCase\<close> on strings of ASCII characters.
\<close>

definition asciiLowerCase :: "string \<Rightarrow> string" where
  "asciiLowerCase s =
     map (\<lambda>c. case map_of (zip ''ABCDEFGHIJKLMNOPQRSTUVWXYZ'' ''abcdefghijklmnopqrstuvwxyz'') c of
                 None \<Rightarrow> c | Some l \<Rightarrow> l) s"

text \<open>
  Rounding to the nearest double, ties to the even significand: a real in the binade
  \<open>[2^e, 2^(e+1))\<close> is rounded to a multiple of \<open>2^(e-52)\<close>, and of \<open>2^(-1074)\<close> below the
  normal range. Results beyond the largest double, which are infinite, do not occur
  in the inputs below.
\<close>

definition roundHalfEven :: "real \<Rightarrow> int" where
  "roundHalfEven x =
     (let f = \<lfloor>x\<rfloor>; d = x - of_int f
      in if d < 1 / 2 then f else if 1 / 2 < d then f + 1 else if even f then f else f + 1)"

definition pow2 :: "int \<Rightarrow> real" where
  "pow2 k = (if 0 \<le> k then 2 ^ nat k else 1 / 2 ^ nat (- k))"

definition binade :: "real \<Rightarrow> int" where
  "binade x = (if 1 \<le> \<bar>x\<bar> then bitlen \<lfloor>\<bar>x\<bar>\<rfloor> - 1 else - bitlen (\<lceil>1 / \<bar>x\<bar>\<rceil> - 1))"

definition fl64 :: "real \<Rightarrow> real" where
  "fl64 x =
     (if x = 0 then 0
      else (let p = max (binade x - 52) (- 1074)
            in of_int (roundHalfEven (x / pow2 p)) * pow2 p))"

text \<open>
  \<open>decimalNumber\<close> is \<open>Number\<close> on the strings of decimal digits, as a process listing
  holds them: the empty string is 0, and a string of digits is the double nearest to
  its value, or infinite when that is beyond the largest double. \<open>Number\<close> reads other
  strings as numbers too (with blanks around, a sign, a fraction, an exponent); none
  occurs in the inputs below, and \<open>decimalNumber\<close> gives NaN for all of them.
\<close>

definition digitValue :: "char \<Rightarrow> real option" where
  "digitValue c = map_of (zip ''0123456789'' [0, 1, 2, 3, 4, 5, 6, 7, 8, 9]) c"

definition decimalNumber :: "string \<Rightarrow> js_number" where
  "decimalNumber s =
     (if list_all (\<lambda>c. digitValue c \<noteq> None) s
      then (let v = fl64 (foldl (\<lambda>n c. 10 * n + the (digitValue c)) 0 s)
            in if v < 2 ^ 1024 then Finite v else PlusInfinity)
      else NaN)"

text \<open>
  \<open>setInterval\<close> of Node.js: a delay below 1 or above \<open>2^31 - 1\<close> arms the period 1, and
  any other delay is the period.
\<close>

definition nodeTimerPeriod :: "real \<Rightarrow> real" where
  "nodeTimerPeriod delay = (if 1 \<le> delay \<and> delay \<le> 2147483647 then delay else 1)"

definition node :: Runtime where
  "node = \<lparr>toLowerCase = asciiLowerCase, toNumber = decimalNumber,
           js_add = (\<lambda>a b. fl64 (a + b)), js_divide = (\<lambda>a b. fl64 (a / b)),
           timerPeriod = nodeTimerPeriod\<rparr>"



subsection \<open>Points, records and candidates\<close>

definition sample :: "real \<Rightarrow> real \<Rightarrow> int \<Rightarrow> ExtensionMetrics" where
  "sample c mem t =
     \<lparr>metric_id = ''pub.ext'', displayName = ''Ext'', version = ''1.0.0'', isActive = True,
      cpuUsage = c, memoryUsage = mem, timestamp = t, activationTime = None,
      estimatedCpuUsage = None, estimatedMemoryUsage = None, processCpuUsage = None,
      processMemoryUsage = None, subprocessCount = None\<rparr>"

definition point :: "nat \<Rightarrow> ExtensionMetrics" where
  "point i = sample 1 7 (int i)"

definition stored :: history_map where
  "stored = foldl (updateHistory node) [] [sample 2 30 4000, sample 4 10 5000, sample 3 20 6000]"

definition unset :: ExtPerfConfig where
  "unset = \<lparr>cfg_monitoringInterval = None, alertThresholds_cpu = None,
            alertThresholds_memory = None, historyRetentionDays = None\<rparr>"

definition oneDay :: ExtPerfConfig where
  "oneDay = unset\<lparr>historyRetentionDays := Some 1\<rparr>"

definition extA :: ExtensionIndexEntry where
  "extA = \<lparr>entry_id = ''Pub.A'', entry_name = ''A'', path = ''/ext/a'', idLower = ''pub.a''\<rparr>"

definition extB :: ExtensionIndexEntry where
  "extB = \<lparr>entry_id = ''Pub.B'', entry_name = ''B'', path = ''/ext/b'', idLower = ''pub.b''\<rparr>"

definition extRoot :: ExtensionIndexEntry where
  "extRoot = \<lparr>entry_id = ''Pub.Root'', entry_name = ''Root'', path = ''/ext'', idLower = ''pub.root''\<rparr>"

text \<open>
  An extension installed under the Windows path \<open>C:/Ext/Win\<close> and the command line
  \<open>C:/Ext/Win/node.exe\<close> of one of its processes, both written with backslashes.
\<close>

definition extensionWin :: Extension where
  "extensionWin = \<lparr>ext_id = ''Pub.Win'',
                   extensionPath = ''C:'' @ [CHR 0x5C] @ ''Ext'' @ [CHR 0x5C] @ ''Win'',
                   packageJSON = None, ext_isActive = True\<rparr>"

definition winCommand :: string where
  "winCommand = ''C:'' @ [CHR 0x5C] @ ''Ext'' @ [CHR 0x5C] @ ''Win'' @ [CHR 0x5C] @ ''node.exe''"

subsection \<open>Processes, machines and hosts\<close>

definition proc :: "string \<Rightarrow> string \<Rightarrow> string \<Rightarrow> PsTreeEntry" where
  "proc p pp c = \<lparr>PID = p, PPID = pp, COMMAND = Some c, COMM = None, COMMAND_LINE = None\<rparr>"

text \<open>
  A process 100 with the child 200, which has the child 300; the listing primitive
  reports all descendants of the pid it is asked about, as \<open>ps-tree\<close> does.
\<close>

definition listing :: "real \<Rightarrow> error + PsTreeEntry list" where
  "listing p =
     (if p = 100 then Inr [proc ''200'' ''100'' ''/bin/sh'', proc ''300'' ''200'' ''/ext/a/bin/server'']
      else if p = 200 then Inr [proc ''300'' ''200'' ''/ext/a/bin/server'']
      else Inr [])"

text \<open>A listing primitive that fails on the pid 400, a child of 100 listed after 200.\<close>

definition vanishing :: "real \<Rightarrow> error + PsTreeEntry list" where
  "vanishing p =
     (if p = 100 then Inr [proc ''200'' ''100'' ''/bin/sh'', proc ''400'' ''100'' ''/bin/ls'']
      else if p = 200 then Inr [proc ''300'' ''200'' ''/ext/a/bin/server'']
      else if p = 400 then Inl (Error ''ESRCH'')
      else Inr [])"

definition sampling :: "real list \<Rightarrow> error + (real \<times> PidusageStat) list" where
  "sampling pids = Inr (map (\<lambda>p. (p, \<lparr>stat_cpu = 7, stat_memory = 3145728\<rparr>)) pids)"

definition extensionA :: Extension where
  "extensionA = \<lparr>ext_id = ''Pub.A'', extensionPath = ''/ext/a'',
                 packageJSON = Some \<lparr>pkg_displayName = Some ''A'', pkg_version = Some ''1.0.0''\<rparr>,
                 ext_isActive = True\<rparr>"

definition machine :: OS where
  "machine = \<lparr>process_pid = 100, psTree = listing, pidusage = sampling\<rparr>"

definition deniedSampling :: OS where
  "deniedSampling = machine\<lparr>pidusage := (\<lambda>pids. Inl (Error ''EPERM''))\<rparr>"

definition quiet :: OS where
  "quiet = \<lparr>process_pid = 100, psTree = (\<lambda>p. Inr []), pidusage = (\<lambda>pids. Inr [])\<rparr>"

text \<open>A host whose configuration stores the interval 500.\<close>

definition hasty :: Host where
  "hasty = \<lparr>allExtensions = [], config = unset\<lparr>cfg_monitoringInterval := Some 500\<rparr>, os = quiet,
            runtime = node, dateNow = 1700000000000, estimateCpuUsage = (\<lambda>x. 1), estimateMemoryUsage = (\<lambda>x. 7),
            getActivationTime = (\<lambda>x. 100)\<rparr>"

text \<open>Hosts whose configuration stores the intervals 0 and 3000000000.\<close>

definition zeroDelay :: Host where
  "zeroDelay = hasty\<lparr>config := unset\<lparr>cfg_monitoringInterval := Some 0\<rparr>\<rparr>"

definition hugeDelay :: Host where
  "hugeDelay = hasty\<lparr>config := unset\<lparr>cfg_monitoringInterval := Some 3000000000\<rparr>\<rparr>"

definition busy :: Host where
  "busy = hasty\<lparr>allExtensions := [extensionA], os := deniedSampling\<rparr>"

definition flaky :: Host where
  "flaky = busy\<lparr>os := machine\<lparr>psTree := vanishing\<rparr>\<rparr>"

definition stopped :: PerformanceMonitor where
  "stopped = \<lparr>monitoringInterval = None, performanceHistory = [], currentMetrics = [],
              isMonitoringActive = False, outputChannel = [], subprocessStats = []\<rparr>"

section \<open>The history ledger\<close>

text \<open>The equations by which a rounding to the nearest double is evaluated.\<close>

lemmas fl64_eval = fl64_def binade_def roundHalfEven_def pow2_def Let_def compute_bitlen

lemma length_slice_last: "length (slice_last n xs) = min (length xs) n"
  by (simp add: slice_last_def)

lemma slice_last_snoc: "slice_last n (slice_last n xs @ [x]) = slice_last n (xs @ [x])"
  by (cases "length xs \<le> n") (simp_all add: slice_last_def Suc_diff_le)


lemma metrics_recordMetric: "metrics (recordMetric rt h m) = slice_last 1000 (metrics h @ [m])"
  by (simp add: recordMetric_def Let_def slice_last_def)


lemma metrics_foldl_recordMetric:
  "metrics (foldl (recordMetric rt) (newHistory k) fs) = slice_last 1000 fs"
proof (induction fs rule: rev_induct)
  case Nil
  show ?case by (simp add: newHistory_def slice_last_def)
next
  case (snoc m fs)
  then show ?case by (simp add: metrics_recordMetric slice_last_snoc)
qed

lemma map_of_updateHistory:
  "map_of (updateHistory rt st m) k =
     (if metric_id m = k then Some (recordMetric rt (lookupOrNew st k) m) else map_of st k)"
  by (auto simp: updateHistory_def update_conv')

lemma lookupOrNew_updateHistory:
  "lookupOrNew (updateHistory rt st m) k =
     (if metric_id m = k then recordMetric rt (lookupOrNew st k) m else lookupOrNew st k)"
  by (simp add: lookupOrNew_def map_of_updateHistory)

lemma lookupOrNew_empty: "lookupOrNew [] k = newHistory k"
  by (simp add: lookupOrNew_def)

lemma lookupOrNew_foldl:
  "lookupOrNew (foldl (updateHistory rt) st ms) k = foldl (recordMetric rt) (lookupOrNew st k) (inserted k ms)"
  by (induction ms rule: rev_induct) (simp_all add: inserted_def lookupOrNew_updateHistory)

lemma map_of_foldl_None:
  "map_of (foldl (updateHistory rt) st ms) k = None \<longleftrightarrow> map_of st k = None \<and> inserted k ms = []"
  by (induction ms rule: rev_induct) (auto simp: inserted_def map_of_updateHistory)

lemma map_of_foldl_Some:
  assumes "inserted k ms \<noteq> []"
  shows "map_of (foldl (updateHistory rt) st ms) k = Some (lookupOrNew (foldl (updateHistory rt) st ms) k)"
proof -
  from assms have "map_of (foldl (updateHistory rt) st ms) k \<noteq> None"
    by (simp add: map_of_foldl_None)
  then show ?thesis by (auto simp: lookupOrNew_def)
qed

lemma inserted_points: "inserted ''pub.ext'' (map point ns) = map point ns"
  by (induction ns) (simp_all add: inserted_def point_def sample_def)

text \<open>
  Claim C2. Start from a ledger with no record for the component \<open>k\<close> (as after a
  clear) and run any sequence of inserts; let \<open>N\<close> be the number of points among them
  that belong to \<open>k\<close>. When \<open>N > 0\<close> the record of \<open>k\<close> holds \<open>min N 1000\<close> points, and
  they are the last \<open>min N 1000\<close> of the inserted ones, in insertion order. The statement
  is about every sequence, so it holds after each insert.
\<close>

theorem history_keeps_most_recent_1000:
  assumes "map_of st k = None" and "inserted k ms \<noteq> []"
  shows "\<exists>h. map_of (foldl (updateHistory rt) st ms) k = Some h
           \<and> length (metrics h) = min (length (inserted k ms)) 1000
           \<and> metrics h = drop (length (inserted k ms) - 1000) (inserted k ms)"
proof -
  let ?h = "lookupOrNew (foldl (updateHistory rt) st ms) k"
  have new: "lookupOrNew st k = newHistory k"
    using assms(1) by (simp add: lookupOrNew_def)
  have m: "metrics ?h = slice_last 1000 (inserted k ms)"
    by (simp add: lookupOrNew_foldl new metrics_foldl_recordMetric)
  have "map_of (foldl (updateHistory rt) st ms) k = Some ?h"
    using assms(2) by (rule map_of_foldl_Some)
  moreover have "length (metrics ?h) = min (length (inserted k ms)) 1000"
    by (simp add: m length_slice_last)
  moreover have "metrics ?h = drop (length (inserted k ms) - 1000) (inserted k ms)"
    by (simp add: m slice_last_def)
  ultimately show ?thesis by blast
qed

text \<open>
  Scenario B: 1500 points with the timestamps 1 to 1500 are inserted into an empty
  ledger; the record then holds the 1000 points with the timestamps 501 to 1500.
\<close>

theorem history_keeps_most_recent_1000_witness:
  "\<exists>h. map_of (foldl (updateHistory node) [] (map point [1..<1501])) ''pub.ext'' = Some h
       \<and> length (metrics h) = 1000 \<and> metrics h = map point [501..<1501]"
  using history_keeps_most_recent_1000
    [where st = "[]" and k = "''pub.ext''" and ms = "map point [1..<1501]" and rt = node]
  by (simp add: inserted_points drop_map del: upt_rec_numeral)







lemma peak_cpu_value_recordMetric:
  "peak_value (peak_cpu (peaks (recordMetric rt h m))) = max (peak_value (peak_cpu (peaks h))) (cpuUsage m)"
  by (simp add: recordMetric_def Let_def max_def)

lemma peak_memory_value_recordMetric:
  "peak_value (peak_memory (peaks (recordMetric rt h m)))
     = max (peak_value (peak_memory (peaks h))) (memoryUsage m)"
  by (simp add: recordMetric_def Let_def max_def)

lemma peak_cpu_foldl:
  "peak_value (peak_cpu (peaks (foldl (recordMetric rt) h fs)))
     = Max (insert (peak_value (peak_cpu (peaks h))) (cpuUsage ` set fs))"
proof (induction fs rule: rev_induct)
  case Nil
  show ?case by simp
next
  case (snoc m fs)
  have "Max (insert (peak_value (peak_cpu (peaks h))) (cpuUsage ` set (fs @ [m])))
      = Max (insert (cpuUsage m) (insert (peak_value (peak_cpu (peaks h))) (cpuUsage ` set fs)))"
    by (simp add: insert_commute)
  also have "\<dots> = max (cpuUsage m) (Max (insert (peak_value (peak_cpu (peaks h))) (cpuUsage ` set fs)))"
    by (rule Max_insert) simp_all
  finally show ?case using snoc by (simp add: peak_cpu_value_recordMetric max.commute)
qed

lemma peak_memory_foldl:
  "peak_value (peak_memory (peaks (foldl (recordMetric rt) h fs)))
     = Max (insert (peak_value (peak_memory (peaks h))) (memoryUsage ` set fs))"
proof (induction fs rule: rev_induct)
  case Nil
  show ?case by simp
next
  case (snoc m fs)
  have "Max (insert (peak_value (peak_memory (peaks h))) (memoryUsage ` set (fs @ [m])))
      = Max (insert (memoryUsage m) (insert (peak_value (peak_memory (peaks h))) (memoryUsage ` set fs)))"
    by (simp add: insert_commute)
  also have "\<dots> = max (memoryUsage m)
                      (Max (insert (peak_value (peak_memory (peaks h))) (memoryUsage ` set fs)))"
    by (rule Max_insert) simp_all
  finally show ?case using snoc by (simp add: peak_memory_value_recordMetric max.commute)
qed

lemma Max_insert_zero:
  fixes f :: "'a \<Rightarrow> real"
  assumes "fs \<noteq> []" and "\<forall>m\<in>set fs. 0 \<le> f m"
  shows "Max (insert 0 (f ` set fs)) = Max (f ` set fs)"
proof -
  have "Max (f ` set fs) \<in> f ` set fs"
    using assms(1) by (intro Max_in) simp_all
  with assms(2) have "0 \<le> Max (f ` set fs)" by auto
  moreover have "Max (insert 0 (f ` set fs)) = max 0 (Max (f ` set fs))"
    using assms(1) by (intro Max_insert) simp_all
  ultimately show ?thesis by simp
qed

lemma peak_cpu_unchanged:
  "cpuUsage m \<le> peak_value (peak_cpu (peaks h))
     \<Longrightarrow> peak_cpu (peaks (recordMetric rt h m)) = peak_cpu (peaks h)"
  by (simp add: recordMetric_def Let_def)

lemma peak_memory_unchanged:
  "memoryUsage m \<le> peak_value (peak_memory (peaks h))
     \<Longrightarrow> peak_memory (peaks (recordMetric rt h m)) = peak_memory (peaks h)"
  by (simp add: recordMetric_def Let_def)

text \<open>
  Claim C4. Start from a ledger with no record for \<open>k\<close> (as after a clear) and run a
  sequence of inserts of which at least one belongs to \<open>k\<close>. If the cpu values inserted
  for \<open>k\<close> are all non-negative, the cpu peak value of the record is their maximum;
  likewise for memory. In any ledger \<open>st'\<close>, an insert whose cpu is at most the current
  cpu peak value of its record leaves that peak, value and timestamp, as it was;
  likewise for memory. A clear leaves no record for any component.
\<close>

theorem peak_is_maximum_since_clear:
  assumes "map_of st k = None" and "inserted k ms \<noteq> []"
  shows "((\<forall>p\<in>set (inserted k ms). 0 \<le> cpuUsage p) \<longrightarrow>
            peak_value (peak_cpu (peaks (lookupOrNew (foldl (updateHistory rt) st ms) k)))
              = Max (cpuUsage ` set (inserted k ms)))
       \<and> ((\<forall>p\<in>set (inserted k ms). 0 \<le> memoryUsage p) \<longrightarrow>
            peak_value (peak_memory (peaks (lookupOrNew (foldl (updateHistory rt) st ms) k)))
              = Max (memoryUsage ` set (inserted k ms)))
       \<and> (cpuUsage m \<le> peak_value (peak_cpu (peaks (lookupOrNew st' (metric_id m)))) \<longrightarrow>
            peak_cpu (peaks (lookupOrNew (updateHistory rt st' m) (metric_id m)))
              = peak_cpu (peaks (lookupOrNew st' (metric_id m))))
       \<and> (memoryUsage m \<le> peak_value (peak_memory (peaks (lookupOrNew st' (metric_id m)))) \<longrightarrow>
            peak_memory (peaks (lookupOrNew (updateHistory rt st' m) (metric_id m)))
              = peak_memory (peaks (lookupOrNew st' (metric_id m))))
       \<and> map_of (clearHistory st') k = None"
proof -
  have new: "lookupOrNew st k = newHistory k"
    using assms(1) by (simp add: lookupOrNew_def)
  have zero: "peak_value (peak_cpu (peaks (newHistory k))) = 0"
    "peak_value (peak_memory (peaks (newHistory k))) = 0"
    by (simp_all add: newHistory_def)
  have c: "peak_value (peak_cpu (peaks (lookupOrNew (foldl (updateHistory rt) st ms) k)))
             = Max (cpuUsage ` set (inserted k ms))"
    if "\<forall>p\<in>set (inserted k ms). 0 \<le> cpuUsage p"
  proof -
    have "peak_value (peak_cpu (peaks (lookupOrNew (foldl (updateHistory rt) st ms) k)))
            = Max (insert 0 (cpuUsage ` set (inserted k ms)))"
      by (simp only: lookupOrNew_foldl new peak_cpu_foldl zero)
    also have "\<dots> = Max (cpuUsage ` set (inserted k ms))"
      using assms(2) that by (rule Max_insert_zero)
    finally show ?thesis .
  qed
  have d: "peak_value (peak_memory (peaks (lookupOrNew (foldl (updateHistory rt) st ms) k)))
             = Max (memoryUsage ` set (inserted k ms))"
    if "\<forall>p\<in>set (inserted k ms). 0 \<le> memoryUsage p"
  proof -
    have "peak_value (peak_memory (peaks (lookupOrNew (foldl (updateHistory rt) st ms) k)))
            = Max (insert 0 (memoryUsage ` set (inserted k ms)))"
      by (simp only: lookupOrNew_foldl new peak_memory_foldl zero)
    also have "\<dots> = Max (memoryUsage ` set (inserted k ms))"
      using assms(2) that by (rule Max_insert_zero)
    finally show ?thesis .
  qed
  show ?thesis
    using c d
    by (simp add: lookupOrNew_updateHistory peak_cpu_unchanged peak_memory_unchanged clearHistory_def)
qed

text \<open>
  Two inserts, then a third whose cpu ties the cpu peak and whose memory is below the
  memory peak: both peaks keep their values and their timestamps.
\<close>

theorem peak_is_maximum_since_clear_witness:
  "map_of ([] :: history_map) ''pub.ext'' = None
   \<and> inserted ''pub.ext'' [sample 3 40 10, sample 9 20 20] = [sample 3 40 10, sample 9 20 20]
   \<and> peak_value (peak_cpu (peaks (lookupOrNew
         (foldl (updateHistory node) [] [sample 3 40 10, sample 9 20 20]) ''pub.ext''))) = 9
   \<and> peak_value (peak_memory (peaks (lookupOrNew
         (foldl (updateHistory node) [] [sample 3 40 10, sample 9 20 20]) ''pub.ext''))) = 40
   \<and> cpuUsage (sample 9 5 30) \<le> 9
   \<and> peak_cpu (peaks (lookupOrNew
         (updateHistory node (foldl (updateHistory node) [] [sample 3 40 10, sample 9 20 20]) (sample 9 5 30))
         ''pub.ext''))
       = \<lparr>peak_value = 9, peak_timestamp = 20\<rparr>
   \<and> peak_memory (peaks (lookupOrNew
         (updateHistory node (foldl (updateHistory node) [] [sample 3 40 10, sample 9 20 20]) (sample 9 5 30))
         ''pub.ext''))
       = \<lparr>peak_value = 40, peak_timestamp = 10\<rparr>"
  using peak_is_maximum_since_clear
    [where st = "[]" and k = "''pub.ext''" and ms = "[sample 3 40 10, sample 9 20 20]"
       and m = "sample 9 5 30" and rt = node
       and st' = "foldl (updateHistory node) [] [sample 3 40 10, sample 9 20 20]"]
  by (simp add: inserted_def sample_def updateHistory_def lookupOrNew_def recordMetric_def
      newHistory_def slice_last_def Let_def)

lemma map_of_cleanupOldData:
  "map_of (fst (cleanupOldData cfg now st)) k
     = map_option (cleanupRecord (cutoffTime cfg now)) (map_of st k)"
  by (simp add: cleanupOldData_def Let_def map_of_map)

lemma stored_eq:
  "stored = [(''pub.ext'', \<lparr>extensionId = ''pub.ext'',
        metrics = [sample 2 30 4000, sample 4 10 5000, sample 3 20 6000],
        averages = \<lparr>avg_cpu = 3, avg_memory = 20\<rparr>,
        peaks = \<lparr>peak_cpu = \<lparr>peak_value = 4, peak_timestamp = 5000\<rparr>,
                 peak_memory = \<lparr>peak_value = 30, peak_timestamp = 4000\<rparr>\<rparr>\<rparr>)]"
  by (simp add: stored_def updateHistory_def lookupOrNew_def recordMetric_def newHistory_def
      reduceAverage_def slice_last_def sample_def node_def fl64_eval)

text \<open>
  Claim C5, as amended. The cleanup run at time \<open>now\<close> with a retention of \<open>d\<close> days uses
  the cutoff \<open>now - d * 86400000\<close>. It keeps the keys of the ledger, and in every record
  it removes exactly the points whose timestamp is at or below the cutoff (the points
  strictly after the cutoff stay, in their order) and leaves the averages, the peaks
  and the id of the record as they were.
\<close>

theorem cleanup_drops_points_up_to_cutoff:
  assumes "map_of st k = Some h"
  shows "\<exists>h'. map_of (fst (cleanupOldData cfg now st)) k = Some h'
           \<and> metrics h' = filter (\<lambda>m. \<not> timestamp m \<le> cutoffTime cfg now) (metrics h)
           \<and> averages h' = averages h \<and> peaks h' = peaks h \<and> extensionId h' = extensionId h
           \<and> cutoffTime cfg now
                = now - getConfig (historyRetentionDays cfg) HISTORY_RETENTION_DAYS * 86400000
           \<and> map fst (fst (cleanupOldData cfg now st)) = map fst st"
proof -
  have "map_of (fst (cleanupOldData cfg now st)) k = Some (cleanupRecord (cutoffTime cfg now) h)"
    using assms by (simp add: map_of_cleanupOldData)
  moreover have "metrics (cleanupRecord (cutoffTime cfg now) h)
      = filter (\<lambda>m. \<not> timestamp m \<le> cutoffTime cfg now) (metrics h)"
    by (simp add: cleanupRecord_def not_le)
  moreover have "map fst (fst (cleanupOldData cfg now st)) = map fst st"
    by (simp add: cleanupOldData_def Let_def case_prod_unfold comp_def)
  moreover have "cutoffTime cfg now
                = now - getConfig (historyRetentionDays cfg) HISTORY_RETENTION_DAYS * 86400000"
    by (simp add: cutoffTime_def)
  ultimately show ?thesis by (simp add: cleanupRecord_def)
qed

text \<open>
  A record with points at 4000, 5000 and 6000, cleaned with the cutoff 5000: the point
  at 6000 stays, two points are counted as removed, averages and peaks are as before.
\<close>

theorem cleanup_drops_points_up_to_cutoff_witness:
  "map_of (fst (cleanupOldData oneDay 86405000 stored)) ''pub.ext''
     = Some \<lparr>extensionId = ''pub.ext'', metrics = [sample 3 20 6000],
        averages = \<lparr>avg_cpu = 3, avg_memory = 20\<rparr>,
        peaks = \<lparr>peak_cpu = \<lparr>peak_value = 4, peak_timestamp = 5000\<rparr>,
                 peak_memory = \<lparr>peak_value = 30, peak_timestamp = 4000\<rparr>\<rparr>\<rparr>
   \<and> snd (cleanupOldData oneDay 86405000 stored) = 2"
  using cleanup_drops_points_up_to_cutoff
    [of stored "''pub.ext''" "lookupOrNew stored ''pub.ext''" oneDay 86405000]
  by (simp add: stored_eq cleanupOldData_def cleanupRecord_def cutoffTime_def getConfig_def
      oneDay_def unset_def lookupOrNew_def Let_def) (simp add: sample_def)

text \<open>
  The claim as stated fails at the boundary: the point whose timestamp equals the
  cutoff is not strictly below it, the record holds it before the cleanup, and the
  cleanup removes it.
\<close>

theorem cleanup_boundary_counterexample:
  "cutoffTime oneDay 86405000 = 5000
   \<and> \<not> timestamp (sample 4 10 5000) < cutoffTime oneDay 86405000
   \<and> sample 4 10 5000 \<in> set (metrics (lookupOrNew stored ''pub.ext''))
   \<and> sample 4 10 5000 \<notin> set (metrics (lookupOrNew (fst (cleanupOldData oneDay 86405000 stored)) ''pub.ext''))"
  by (simp add: stored_eq cleanupOldData_def cleanupRecord_def cutoffTime_def getConfig_def
      oneDay_def unset_def lookupOrNew_def Let_def) (simp add: sample_def)

section \<open>The alert evaluator\<close>

text \<open>
  Claim C10. For every point and configured thresholds, a cpu alert is among the
  alerts emitted iff the cpu of the point is strictly greater than the cpu threshold,
  and a memory alert iff its memory is strictly greater than the memory threshold;
  each kind is emitted at most once, and every alert emitted carries the id and the
  timestamp of the point.
\<close>

theorem alerts_fire_strictly_above_threshold:
  "(Cpu \<in> alert_type ` set (checkAlerts cfg m)
      \<longleftrightarrow> cpuUsage m > getConfig (alertThresholds_cpu cfg) CPU_ALERT_THRESHOLD)
   \<and> (Memory \<in> alert_type ` set (checkAlerts cfg m)
      \<longleftrightarrow> memoryUsage m > getConfig (alertThresholds_memory cfg) MEMORY_ALERT_THRESHOLD)
   \<and> distinct (map alert_type (checkAlerts cfg m))
   \<and> alert_extensionId ` set (checkAlerts cfg m) \<subseteq> {metric_id m}
   \<and> alert_timestamp ` set (checkAlerts cfg m) \<subseteq> {timestamp m}"
  by (simp add: checkAlerts_def Let_def)

text \<open>
  Scenario C with the default thresholds (cpu 80, memory 100): cpu 81 gives exactly the
  cpu alert, cpu 80 gives none, and a point above both thresholds gives both.
\<close>

theorem alerts_fire_strictly_above_threshold_witness:
  "map alert_type (checkAlerts unset (sample 81 100 1)) = [Cpu]
   \<and> checkAlerts unset (sample 80 100 1) = []
   \<and> map alert_type (checkAlerts unset (sample 81 101 1)) = [Cpu, Memory]"
  using alerts_fire_strictly_above_threshold [of unset "sample 81 100 1"]
  by (simp add: checkAlerts_def Let_def getConfig_def unset_def sample_def
      CPU_ALERT_THRESHOLD_def MEMORY_ALERT_THRESHOLD_def)

section \<open>The component matcher\<close>

lemma js_includes_sublist: "js_includes haystack needle \<longleftrightarrow> sublist needle haystack"
  by (induction haystack) (simp_all add: sublist_Cons_right)

lemma considerExtension_cases:
  "considerExtension hay best e =
     (if matchesCommand hay e
      then (case best of None \<Rightarrow> Some e
            | Some b \<Rightarrow> if length (path e) > length (path b) then Some e else best)
      else best)"
  by (simp add: considerExtension_def matchesCommand_def js_includes_sublist)

lemma foldl_consider_None:
  "foldl (considerExtension hay) best exts = None
     \<longleftrightarrow> best = None \<and> (\<forall>e\<in>set exts. \<not> matchesCommand hay e)"
  by (induction exts arbitrary: best) (auto simp: considerExtension_cases split: option.splits)

lemma foldl_consider_Some:
  assumes "foldl (considerExtension hay) best exts = Some b"
  shows "(best = Some b \<or> (b \<in> set exts \<and> matchesCommand hay b))
       \<and> (\<forall>e\<in>set exts. matchesCommand hay e \<longrightarrow> length (path e) \<le> length (path b))
       \<and> (\<forall>b0. best = Some b0 \<longrightarrow> length (path b0) \<le> length (path b))"
  using assms
proof (induction exts arbitrary: best)
  case Nil
  then show ?case by simp
next
  case (Cons e exts)
  from Cons.prems have f: "foldl (considerExtension hay) (considerExtension hay best e) exts = Some b"
    by simp
  note ih = Cons.IH [OF f]
  show ?case
  proof (cases "matchesCommand hay e")
    case False
    with ih show ?thesis by (auto simp: considerExtension_cases)
  next
    case True
    show ?thesis
    proof (cases best)
      case None
      with True ih show ?thesis by (auto simp: considerExtension_cases)
    next
      case (Some b0)
      show ?thesis
      proof (cases "length (path e) > length (path b0)")
        case True
        with \<open>matchesCommand hay e\<close> Some ih show ?thesis
          by (auto simp: considerExtension_cases)
      next
        case False
        with \<open>matchesCommand hay e\<close> Some ih show ?thesis
          by (auto simp: considerExtension_cases)
      qed
    qed
  qed
qed

text \<open>
  Claim C6. The command line is normalized by mapping every backslash to a slash and
  lowercasing the result; the index holds, for every extension, its install path
  normalized in the same way and its lowercased id. For a command line that is not
  empty, \<open>findBestMatch\<close> returns a candidate iff some candidate of the index matches the
  normalized command line (its install path or its lowercased id occurs in it). A
  returned candidate is in the index, matches, and no matching candidate has a longer
  install path. The empty command line, and an index without a matching candidate,
  give no candidate; the function has no failing branch.
\<close>

theorem findBestMatch_longest_matching_path:
  "(cmdline \<noteq> [] \<longrightarrow>
      (findBestMatch rt cmdline candidates \<noteq> None
         \<longleftrightarrow> (\<exists>e\<in>set candidates. matchesCommand (normalizePath rt cmdline) e)))
   \<and> (\<forall>b. findBestMatch rt cmdline candidates = Some b \<longrightarrow>
          b \<in> set candidates \<and> matchesCommand (normalizePath rt cmdline) b
          \<and> (\<forall>e\<in>set candidates. matchesCommand (normalizePath rt cmdline) e
                \<longrightarrow> length (path e) \<le> length (path b)))
   \<and> (cmdline = [] \<longrightarrow> findBestMatch rt cmdline candidates = None)
   \<and> ((\<forall>e\<in>set candidates. \<not> matchesCommand (normalizePath rt cmdline) e)
         \<longrightarrow> findBestMatch rt cmdline candidates = None)
   \<and> normalizePath rt cmdline
         = toLowerCase rt (map (\<lambda>c. if c = CHR 0x5C then CHR ''/'' else c) cmdline)
   \<and> path (indexExtension rt x)
         = toLowerCase rt (map (\<lambda>c. if c = CHR 0x5C then CHR ''/'' else c) (extensionPath x))
   \<and> idLower (indexExtension rt x) = toLowerCase rt (ext_id x)
   \<and> entry_id (indexExtension rt x) = ext_id x"
proof -
  have a: "findBestMatch rt cmdline candidates \<noteq> None
         \<longleftrightarrow> (\<exists>e\<in>set candidates. matchesCommand (normalizePath rt cmdline) e)" if "cmdline \<noteq> []"
    using that by (simp add: findBestMatch_def foldl_consider_None)
  have b: "b \<in> set candidates \<and> matchesCommand (normalizePath rt cmdline) b
          \<and> (\<forall>e\<in>set candidates. matchesCommand (normalizePath rt cmdline) e
                \<longrightarrow> length (path e) \<le> length (path b))"
    if "findBestMatch rt cmdline candidates = Some b" for b
  proof -
    from that have "foldl (considerExtension (normalizePath rt cmdline)) None candidates = Some b"
      by (simp add: findBestMatch_def split: if_splits)
    from foldl_consider_Some [OF this] show ?thesis by simp
  qed
  have c: "findBestMatch rt cmdline candidates = None" if "cmdline = []"
    using that by (simp add: findBestMatch_def)
  have d: "findBestMatch rt cmdline candidates = None"
    if "\<forall>e\<in>set candidates. \<not> matchesCommand (normalizePath rt cmdline) e"
    using that by (simp add: findBestMatch_def foldl_consider_None)
  have n: "normalizePath rt cmdline
         = toLowerCase rt (map (\<lambda>c. if c = CHR 0x5C then CHR ''/'' else c) cmdline)"
    by (simp add: normalizePath_def)
  have i: "path (indexExtension rt x)
         = toLowerCase rt (map (\<lambda>c. if c = CHR 0x5C then CHR ''/'' else c) (extensionPath x))"
    "idLower (indexExtension rt x) = toLowerCase rt (ext_id x)"
    "entry_id (indexExtension rt x) = ext_id x"
    by (simp_all add: indexExtension_def normalizePath_def)
  from a b c d n i show ?thesis by blast
qed

lemma normalizePath_winCommand: "normalizePath node winCommand = ''c:/ext/win/node.exe''"
  by (simp add: normalizePath_def winCommand_def node_def asciiLowerCase_def)

lemma indexExtension_extensionWin:
  "indexExtension node extensionWin
     = \<lparr>entry_id = ''Pub.Win'', entry_name = ''Pub.Win'', path = ''c:/ext/win'', idLower = ''pub.win''\<rparr>"
  by (simp add: indexExtension_def extensionWin_def normalizePath_def displayNameOf_def node_def
      asciiLowerCase_def)

text \<open>
  Under Node.js: a Windows command line written with backslashes and capitals is
  normalized to slashes and small letters and matches the extension installed under
  that path, whose index entry is normalized in the same way; scenario A; the empty
  command line; a command line on which a path and a longer path both match.
\<close>

theorem findBestMatch_longest_matching_path_witness:
  "normalizePath node winCommand = ''c:/ext/win/node.exe''
   \<and> path (indexExtension node extensionWin) = ''c:/ext/win''
   \<and> map_option entry_id (findBestMatch node winCommand [extA, indexExtension node extensionWin])
       = Some ''Pub.Win''
   \<and> map_option entry_id (findBestMatch node ''/ext/a/bin/server'' [extA, extB]) = Some ''Pub.A''
   \<and> map_option entry_id (findBestMatch node ''/ext/b/run'' [extA, extB]) = Some ''Pub.B''
   \<and> findBestMatch node ''/unrelated/x'' [extA, extB] = None
   \<and> findBestMatch node '''' [extA, extB] = None
   \<and> map_option entry_id (findBestMatch node ''/EXT/A/bin/server'' [extRoot, extA, extB]) = Some ''Pub.A''"
proof -
  have w: "winCommand \<noteq> []"
    by (simp add: winCommand_def)
  have f: "findBestMatch node winCommand [extA, indexExtension node extensionWin]
             = Some (indexExtension node extensionWin)"
    by (simp add: findBestMatch_def w normalizePath_winCommand indexExtension_extensionWin
        considerExtension_def extA_def)
  have rest: "map_option entry_id (findBestMatch node ''/ext/a/bin/server'' [extA, extB]) = Some ''Pub.A''
   \<and> map_option entry_id (findBestMatch node ''/ext/b/run'' [extA, extB]) = Some ''Pub.B''
   \<and> findBestMatch node ''/unrelated/x'' [extA, extB] = None
   \<and> findBestMatch node '''' [extA, extB] = None
   \<and> map_option entry_id (findBestMatch node ''/EXT/A/bin/server'' [extRoot, extA, extB]) = Some ''Pub.A''"
    by (simp add: findBestMatch_def considerExtension_def normalizePath_def node_def
        asciiLowerCase_def extA_def extB_def extRoot_def)
  from findBestMatch_longest_matching_path
    [of winCommand node "[extA, indexExtension node extensionWin]" extensionWin] w f rest
  show ?thesis
    by (simp add: normalizePath_winCommand indexExtension_extensionWin)
qed

section \<open>The process tree walker\<close>

lemma Number_200: "decimalNumber ''200'' = Finite 200"
  by (simp add: decimalNumber_def digitValue_def fl64_eval)

lemma Number_300: "decimalNumber ''300'' = Finite 300"
  by (simp add: decimalNumber_def digitValue_def fl64_eval)

lemma Number_400: "decimalNumber ''400'' = Finite 400"
  by (simp add: decimalNumber_def digitValue_def fl64_eval)

lemma walked_refl: "walked rt gpt s s"
  by (simp add: walked_def)

lemma walked_trans:
  assumes "walked rt gpt s t" and "walked rt gpt t u"
  shows "walked rt gpt s u"
proof -
  from assms(1) obtain n1 where n1: "fst t = fst s @ n1" "\<forall>c\<in>set n1. \<forall>p. validPid rt c p \<longrightarrow> p \<in> snd t"
    by (auto simp: walked_def)
  from assms(2) obtain n2 where n2: "fst u = fst t @ n2" "\<forall>c\<in>set n2. \<forall>p. validPid rt c p \<longrightarrow> p \<in> snd u"
    by (auto simp: walked_def)
  have sub: "snd s \<subseteq> snd t" "snd t \<subseteq> snd u"
    using assms by (auto simp: walked_def)
  have "fst u = fst s @ (n1 @ n2)"
    using n1 n2 by simp
  moreover have "\<forall>c\<in>set (n1 @ n2). \<forall>p. validPid rt c p \<longrightarrow> p \<in> snd u"
    using n1 n2 sub by auto
  moreover have "\<exists>l. gpt p = Inr l \<and> (\<forall>c\<in>set l. \<forall>q. validPid rt c q \<longrightarrow> q \<in> snd u)"
    if "p \<in> snd u - snd s" for p
  proof (cases "p \<in> snd t")
    case True
    with that assms(1) obtain l where "gpt p = Inr l" "\<forall>c\<in>set l. \<forall>q. validPid rt c q \<longrightarrow> q \<in> snd t"
      unfolding walked_def by blast
    with sub show ?thesis by blast
  next
    case False
    with that assms(2) show ?thesis
      unfolding walked_def by blast
  qed
  ultimately show ?thesis
    using sub unfolding walked_def by blast
qed

lemma forEachAwait_walked:
  assumes "forEachAwait body xs s = Some (Inr s')"
    and "\<And>x t t'. x \<in> set xs \<Longrightarrow> body x t = Some (Inr t')
           \<Longrightarrow> walked rt gpt t t' \<and> (\<forall>q. validPid rt x q \<longrightarrow> q \<in> snd t')"
  shows "walked rt gpt s s' \<and> (\<forall>x\<in>set xs. \<forall>q. validPid rt x q \<longrightarrow> q \<in> snd s')"
  using assms
proof (induction xs arbitrary: s)
  case Nil
  then show ?case by (simp add: walked_refl)
next
  case (Cons x xs)
  from Cons.prems(1) obtain t where t: "body x s = Some (Inr t)"
    and rest: "forEachAwait body xs t = Some (Inr s')"
    by (auto split: option.splits sum.splits)
  have first: "walked rt gpt s t \<and> (\<forall>q. validPid rt x q \<longrightarrow> q \<in> snd t)"
    using t by (intro Cons.prems(2) [of x]) simp_all
  have later: "walked rt gpt t s' \<and> (\<forall>y\<in>set xs. \<forall>q. validPid rt y q \<longrightarrow> q \<in> snd s')"
  proof (rule Cons.IH [OF rest])
    fix y u u'
    assume "y \<in> set xs" and "body y u = Some (Inr u')"
    then show "walked rt gpt u u' \<and> (\<forall>q. validPid rt y q \<longrightarrow> q \<in> snd u')"
      by (intro Cons.prems(2) [of y]) simp_all
  qed
  from later have "snd t \<subseteq> snd s'"
    by (simp add: walked_def)
  with first later have "\<forall>y\<in>set (x # xs). \<forall>q. validPid rt y q \<longrightarrow> q \<in> snd s'"
    by auto
  moreover from first later have "walked rt gpt s s'"
    by (blast intro: walked_trans)
  ultimately show ?case by blast
qed

lemma collect_walked:
  "collect rt fuel gpt p s = Some (Inr s') \<Longrightarrow> walked rt gpt s s' \<and> p \<in> snd s'"
proof (induction fuel arbitrary: p s s')
  case 0
  then show ?case by simp
next
  case (Suc fuel)
  show ?case
  proof (cases "p \<in> snd s")
    case True
    with Suc.prems show ?thesis by (simp add: walked_refl)
  next
    case False
    let ?body = "\<lambda>child s'.
                  case toNumber rt (PID child) of
                    Finite childPid \<Rightarrow>
                      if childPid > 0
                      then collect rt fuel gpt childPid (fst s' @ [child], snd s')
                      else Some (Inr s')
                  | _ \<Rightarrow> Some (Inr s')"
    from False Suc.prems obtain children where ch: "gpt p = Inr children"
      and loop: "forEachAwait ?body children (fst s, insert p (snd s)) = Some (Inr s')"
      by (auto split: sum.splits)
    have body: "walked rt gpt t t' \<and> (\<forall>q. validPid rt x q \<longrightarrow> q \<in> snd t')"
      if "?body x t = Some (Inr t')" for x t t'
    proof (cases "\<exists>q. validPid rt x q")
      case False
      then have "?body x t = Some (Inr t)"
        by (auto simp: validPid_def split: js_number.splits)
      with that False show ?thesis by (simp add: walked_refl)
    next
      case True
      then obtain q where q: "toNumber rt (PID x) = Finite q" "0 < q"
        by (auto simp: validPid_def)
      with that have c: "collect rt fuel gpt q (fst t @ [x], snd t) = Some (Inr t')"
        by simp
      from Suc.IH [OF c] have w: "walked rt gpt (fst t @ [x], snd t) t'" and qin: "q \<in> snd t'"
        by simp_all
      from w obtain new where new: "fst t' = (fst t @ [x]) @ new"
        "\<forall>c\<in>set new. \<forall>p. validPid rt c p \<longrightarrow> p \<in> snd t'"
        by (auto simp: walked_def)
      have only: "\<forall>r. validPid rt x r \<longrightarrow> r \<in> snd t'"
        using q qin by (simp add: validPid_def)
      have "fst t' = fst t @ (x # new)"
        using new by simp
      moreover have "\<forall>c\<in>set (x # new). \<forall>p. validPid rt c p \<longrightarrow> p \<in> snd t'"
        using new only by simp
      ultimately have "walked rt gpt t t'"
        using w unfolding walked_def by (metis fst_conv snd_conv)
      with only show ?thesis by simp
    qed
    have w: "walked rt gpt (fst s, insert p (snd s)) s'"
      and v: "\<forall>x\<in>set children. \<forall>q. validPid rt x q \<longrightarrow> q \<in> snd s'"
      using forEachAwait_walked [of ?body children "(fst s, insert p (snd s))" s' rt gpt] loop body
      by blast+
    then have pin: "p \<in> snd s'"
      by (auto simp: walked_def)
    have "walked rt gpt s s'"
    proof -
      from w obtain new where "fst s' = fst s @ new"
        "\<forall>c\<in>set new. \<forall>p. validPid rt c p \<longrightarrow> p \<in> snd s'"
        by (auto simp: walked_def)
      moreover have "snd s \<subseteq> snd s'"
        using w by (auto simp: walked_def)
      moreover have "\<exists>l. gpt r = Inr l \<and> (\<forall>c\<in>set l. \<forall>q. validPid rt c q \<longrightarrow> q \<in> snd s')"
        if "r \<in> snd s' - snd s" for r
      proof (cases "r = p")
        case True
        with ch v show ?thesis by blast
      next
        case False
        with that w show ?thesis
          unfolding walked_def by auto
      qed
      ultimately show ?thesis
        unfolding walked_def by blast
    qed
    with pin show ?thesis by simp
  qed
qed

lemma walk_covers_descended:
  assumes "collect rt fuel gpt r0 ([], {}) = Some (Inr s')" and "p \<in> descended rt gpt r0"
  shows "p \<in> snd s'"
  using assms(2)
proof (induction rule: descended.induct)
  case root
  from collect_walked [OF assms(1)] show ?case by simp
next
  case (child p l c q)
  from collect_walked [OF assms(1)] have "walked rt gpt ([], {}) s'"
    by simp
  with child.IH obtain l' where "gpt p = Inr l'" "\<forall>c\<in>set l'. \<forall>q. validPid rt c q \<longrightarrow> q \<in> snd s'"
    unfolding walked_def by auto
  with child.hyps show ?case by auto
qed

lemma getAllDescendants_all_listed:
  assumes "getAllDescendants rt fuel gpt r0 = Some (Inr cs)"
  shows "(\<exists>l. gpt r0 = Inr l)
       \<and> (\<forall>c\<in>set cs. \<forall>p. validPid rt c p \<longrightarrow> (\<exists>l. gpt p = Inr l))
       \<and> (\<forall>p\<in>descended rt gpt r0. \<exists>l. gpt p = Inr l)"
proof -
  from assms obtain s' where c: "collect rt fuel gpt r0 ([], {}) = Some (Inr s')" and cs: "cs = fst s'"
    by (auto simp: getAllDescendants_def split: option.splits sum.splits)
  from collect_walked [OF c] have w: "walked rt gpt ([], {}) s'" and r: "r0 \<in> snd s'"
    by simp_all
  from w have all: "\<forall>p\<in>snd s'. \<exists>l. gpt p = Inr l"
    and new: "\<forall>c\<in>set (fst s'). \<forall>p. validPid rt c p \<longrightarrow> p \<in> snd s'"
    by (auto simp: walked_def)
  have "\<forall>p\<in>descended rt gpt r0. \<exists>l. gpt p = Inr l"
    using walk_covers_descended [OF c] all by blast
  with all r new cs show ?thesis by blast
qed

lemma getAllDescendants_root_fails:
  "gpt r0 = Inl e \<Longrightarrow> getAllDescendants rt (Suc fuel) gpt r0 = Some (Inl e)"
  by (simp add: getAllDescendants_def)

lemma descended_trans:
  assumes "q \<in> descended rt gpt p" and "p \<in> descended rt gpt r0"
  shows "q \<in> descended rt gpt r0"
  using assms
proof (induction rule: descended.induct)
  case root
  then show ?case by simp
next
  case (child p' l c q')
  then show ?case by (blast intro: descended.child)
qed

lemma forEachAwait_rejected:
  "forEachAwait body xs s = Some (Inl e) \<Longrightarrow> \<exists>x\<in>set xs. \<exists>t. body x t = Some (Inl e)"
proof (induction xs arbitrary: s)
  case Nil
  then show ?case by simp
next
  case (Cons x xs)
  then show ?case
    by (cases "body x s") (auto split: sum.splits)
qed

lemma collect_rejected:
  "collect rt fuel gpt p s = Some (Inl e) \<Longrightarrow> \<exists>q\<in>descended rt gpt p. gpt q = Inl e"
proof (induction fuel arbitrary: p s)
  case 0
  then show ?case by simp
next
  case (Suc fuel)
  from Suc.prems have notin: "p \<notin> snd s"
    by (auto split: if_splits)
  show ?case
  proof (cases "gpt p")
    case (Inl e')
    with Suc.prems notin have "e' = e" by simp
    with Inl show ?thesis by (auto intro: descended.root)
  next
    case (Inr children)
    let ?body = "\<lambda>child s'.
                  case toNumber rt (PID child) of
                    Finite childPid \<Rightarrow>
                      if childPid > 0
                      then collect rt fuel gpt childPid (fst s' @ [child], snd s')
                      else Some (Inr s')
                  | _ \<Rightarrow> Some (Inr s')"
    from Suc.prems notin Inr
    have "forEachAwait ?body children (fst s, insert p (snd s)) = Some (Inl e)"
      by simp
    from forEachAwait_rejected [OF this]
    obtain x t where x: "x \<in> set children" and b: "?body x t = Some (Inl e)"
      by blast
    from b obtain q where q: "toNumber rt (PID x) = Finite q" "0 < q"
      and c: "collect rt fuel gpt q (fst t @ [x], snd t) = Some (Inl e)"
      by (auto split: js_number.splits if_splits)
    from Suc.IH [OF c] obtain r where r: "r \<in> descended rt gpt q" "gpt r = Inl e"
      by blast
    have "q \<in> descended rt gpt p"
      using descended.root Inr x q by (rule descended.child [unfolded validPid_def, OF _ _ _ conjI])
    with r show ?thesis
      by (blast intro: descended_trans)
  qed
qed

lemma getAllDescendants_rejected:
  assumes "getAllDescendants rt fuel gpt r0 = Some (Inl e)"
  shows "\<exists>q\<in>descended rt gpt r0. gpt q = Inl e"
proof -
  from assms have "collect rt fuel gpt r0 ([], {}) = Some (Inl e)"
    by (auto simp: getAllDescendants_def split: option.splits sum.splits)
  then show ?thesis by (rule collect_rejected)
qed

lemma collect_returns:
  assumes fin: "finite U"
    and closed: "listsWithin rt gpt U"
  shows "p \<in> U \<Longrightarrow> snd s \<subseteq> U \<Longrightarrow> card (U - snd s) < fuel
     \<Longrightarrow> \<exists>r. collect rt fuel gpt p s = Some r \<and> (\<forall>s'. r = Inr s' \<longrightarrow> snd s' \<subseteq> U)"
proof (induction fuel arbitrary: p s)
  case 0
  then show ?case by simp
next
  case (Suc fuel)
  show ?case
  proof (cases "p \<in> snd s")
    case True
    with Suc.prems show ?thesis by auto
  next
    case False
    note notin = this
    show ?thesis
    proof (cases "gpt p")
      case (Inl e)
      with notin show ?thesis by simp
    next
      case (Inr children)
      let ?body = "\<lambda>child s'.
                  case toNumber rt (PID child) of
                    Finite childPid \<Rightarrow>
                      if childPid > 0
                      then collect rt fuel gpt childPid (fst s' @ [child], snd s')
                      else Some (Inr s')
                  | _ \<Rightarrow> Some (Inr s')"
      have less: "card (U - insert p (snd s)) < card (U - snd s)"
        using fin notin Suc.prems(1) by (intro psubset_card_mono) auto
      have loop: "\<exists>r. forEachAwait ?body xs t = Some r \<and> (\<forall>t'. r = Inr t' \<longrightarrow> snd t' \<subseteq> U)"
        if "set xs \<subseteq> set children" and "insert p (snd s) \<subseteq> snd t" and "snd t \<subseteq> U" for xs t
        using that
      proof (induction xs arbitrary: t)
        case Nil
        then show ?case by auto
      next
        case (Cons x xs)
        have "card (U - snd t) \<le> card (U - insert p (snd s))"
          using fin Cons.prems(2) by (intro card_mono) auto
        with less Suc.prems(3) have fuel: "card (U - snd t) < fuel"
          by simp
        have step: "\<exists>r. ?body x t = Some r
                      \<and> (\<forall>t'. r = Inr t' \<longrightarrow> snd t' \<subseteq> U \<and> snd t \<subseteq> snd t')"
        proof (cases "\<exists>q. validPid rt x q")
          case False
          then have "?body x t = Some (Inr t)"
            by (auto simp: validPid_def split: js_number.splits)
          with Cons.prems(3) show ?thesis by auto
        next
          case True
          then obtain q where q: "toNumber rt (PID x) = Finite q" "0 < q" and v: "validPid rt x q"
            by (auto simp: validPid_def)
          from v Cons.prems(1) closed Suc.prems(1) Inr have "q \<in> U"
            unfolding listsWithin_def by auto
          from Suc.IH [OF this, of "(fst t @ [x], snd t)"] Cons.prems(3) fuel
          obtain r where r: "collect rt fuel gpt q (fst t @ [x], snd t) = Some r"
            "\<forall>t'. r = Inr t' \<longrightarrow> snd t' \<subseteq> U"
            by auto
          have "snd t \<subseteq> snd t'" if "r = Inr t'" for t'
            using collect_walked [of rt fuel gpt q "(fst t @ [x], snd t)" t'] r(1) that
            by (simp add: walked_def)
          with r q show ?thesis by auto
        qed
        then obtain r where r: "?body x t = Some r"
          "\<forall>t'. r = Inr t' \<longrightarrow> snd t' \<subseteq> U \<and> snd t \<subseteq> snd t'"
          by blast
        show ?case
        proof (cases r)
          case (Inl e)
          with r show ?thesis by simp
        next
          case (Inr t')
          with r have "snd t' \<subseteq> U" "insert p (snd s) \<subseteq> snd t'"
            using Cons.prems(2) by auto
          with Cons.IH [of t'] Cons.prems(1) have
            "\<exists>r. forEachAwait ?body xs t' = Some r \<and> (\<forall>t'. r = Inr t' \<longrightarrow> snd t' \<subseteq> U)"
            by simp
          with r Inr show ?thesis by simp
        qed
      qed
      have "\<exists>r. forEachAwait ?body children (fst s, insert p (snd s)) = Some r
               \<and> (\<forall>t'. r = Inr t' \<longrightarrow> snd t' \<subseteq> U)"
        using Suc.prems by (intro loop) simp_all
      with notin Inr show ?thesis by simp
    qed
  qed
qed

lemma getAllDescendants_returns:
  assumes "finite U" and "r0 \<in> U" and "listsWithin rt gpt U" and "card U < fuel"
  shows "\<exists>r. getAllDescendants rt fuel gpt r0 = Some r"
proof -
  from collect_returns [OF assms(1) assms(3), where p = r0 and s = "([], {})" and fuel = fuel] assms(2,4)
  obtain r where "collect rt fuel gpt r0 ([], {}) = Some r"
    by auto
  then show ?thesis
    by (cases r) (simp_all add: getAllDescendants_def)
qed

lemma getAllDescendants_fails_on_descended_failure:
  assumes "finite U" and "r0 \<in> U" and "listsWithin rt gpt U" and "card U < fuel"
    and "p \<in> descended rt gpt r0" and "gpt p = Inl e'"
  shows "\<exists>e. getAllDescendants rt fuel gpt r0 = Some (Inl e)"
proof -
  from getAllDescendants_returns [OF assms(1-4)] obtain r
    where r: "getAllDescendants rt fuel gpt r0 = Some r"
    by blast
  show ?thesis
  proof (cases r)
    case (Inl e)
    with r show ?thesis by blast
  next
    case (Inr cs)
    with r getAllDescendants_all_listed [of rt fuel gpt r0 cs] assms(5)
    have "\<exists>l. gpt p = Inr l" by blast
    with assms(6) show ?thesis by simp
  qed
qed

lemma walk_vanishing:
  "getAllDescendants node (Suc (Suc (Suc 0))) vanishing 100 = Some (Inl (Error ''ESRCH''))"
  by (simp add: getAllDescendants_def node_def vanishing_def proc_def Number_200 Number_300 Number_400)

lemma walk_machine:
  "getAllDescendants node (Suc (Suc (Suc 0))) listing 100
     = Some (Inr [proc ''200'' ''100'' ''/bin/sh'', proc ''300'' ''200'' ''/ext/a/bin/server'',
                  proc ''300'' ''200'' ''/ext/a/bin/server''])"
  by (simp add: getAllDescendants_def node_def listing_def proc_def Number_200 Number_300)

section \<open>Subprocess attribution and the round\<close>

lemma attributeChildren_sampling_fails:
  "pidusage sys (sampledPids rt children) = Inl e \<Longrightarrow> attributeChildren rt sys exts opts children = []"
  by (simp add: attributeChildren_def Let_def)

lemma fst_foldl_collectExtension:
  "fst (foldl (collectExtension host stats ts) acc exts)
     = fst acc @ map (buildMetric host stats ts) (filter userExtension exts)"
  by (induction exts arbitrary: acc) (simp_all add: collectExtension_def userExtension_def Let_def)

lemma subprocessStats_foldl_collectExtension:
  "subprocessStats (snd (foldl (collectExtension host stats ts) acc exts)) = subprocessStats (snd acc)"
  by (induction exts arbitrary: acc) (simp_all add: collectExtension_def Let_def)

lemma outputChannel_foldl_collectExtension:
  "set (outputChannel (snd acc)) \<subseteq> set (outputChannel (snd (foldl (collectExtension host stats ts) acc exts)))"
proof (induction exts arbitrary: acc)
  case Nil
  show ?case by simp
next
  case (Cons x exts)
  have "set (outputChannel (snd acc)) \<subseteq> set (outputChannel (snd (collectExtension host stats ts acc x)))"
    by (auto simp: collectExtension_def Let_def)
  also note Cons.IH
  finally show ?case by simp
qed

lemma buildMetric_no_stats:
  "subprocessCount (buildMetric host [] ts x) = Some 0
   \<and> processCpuUsage (buildMetric host [] ts x) = Some 0
   \<and> processMemoryUsage (buildMetric host [] ts x) = Some 0
   \<and> cpuUsage (buildMetric host [] ts x) = estimateCpuUsage host x
   \<and> memoryUsage (buildMetric host [] ts x) = estimateMemoryUsage host x
   \<and> metric_id (buildMetric host [] ts x) = ext_id x"
  by (simp add: buildMetric_def Let_def)

lemma collectMetrics_resolved:
  assumes "collectSubprocessStats (runtime host) fuel (os host) (allExtensions host) None = Some (Inr stats)"
  shows "\<exists>monitor'. collectMetrics fuel host monitor
            = Some (map (buildMetric host stats (dateNow host)) (filter userExtension (allExtensions host)), monitor')
         \<and> subprocessStats monitor' = stats"
  using assms
  by (simp add: collectMetrics_def Let_def fst_foldl_collectExtension
      subprocessStats_foldl_collectExtension)

lemma collectMetrics_rejected:
  assumes "collectSubprocessStats (runtime host) fuel (os host) (allExtensions host) None = Some (Inl e)"
  shows "\<exists>monitor'. collectMetrics fuel host monitor
            = Some (map (buildMetric host [] (dateNow host)) (filter userExtension (allExtensions host)), monitor')
         \<and> subprocessStats monitor' = []
         \<and> ErrorCollectingSubprocessStats e \<in> set (outputChannel monitor')"
proof -
  let ?m1 = "monitor\<lparr>outputChannel := outputChannel monitor @ [ErrorCollectingSubprocessStats e],
                      subprocessStats := []\<rparr>"
  have "ErrorCollectingSubprocessStats e \<in> set (outputChannel (snd ([] :: ExtensionMetrics list, ?m1)))"
    by simp
  then have "ErrorCollectingSubprocessStats e
      \<in> set (outputChannel (snd (foldl (collectExtension host [] (dateNow host)) ([], ?m1) (allExtensions host))))"
    using outputChannel_foldl_collectExtension by blast
  then show ?thesis
    using assms
    by (simp add: collectMetrics_def Let_def fst_foldl_collectExtension
        subprocessStats_foldl_collectExtension)
qed

text \<open>
  Claim C1, as amended. When the walk has returned the descendants and the sampling
  primitive fails on their batch of pids, \<open>collectSubprocessStats\<close> returns the empty
  map, with no entry for any component, and does not fail; so does the copy of it
  that lists the children with one call. The round then completes with the empty map
  of subprocess statistics and one metric for every extension that is not built in;
  a metric built from the empty map has the subprocess count 0 and the process cpu 0.
\<close>

theorem sampling_failure_gives_empty_attribution:
  assumes "getAllDescendants (runtime host) fuel (psTree (os host)) (walkRoot (os host) opts)
             = Some (Inr children)"
    and "pidusage (os host) (sampledPids (runtime host) children) = Inl e"
  shows "collectSubprocessStats (runtime host) fuel (os host) (allExtensions host) opts = Some (Inr [])
       \<and> (opts = None \<longrightarrow>
            (\<exists>monitor'. collectMetrics fuel host monitor
                 = Some (map (buildMetric host [] (dateNow host)) (filter userExtension (allExtensions host)),
                         monitor')
               \<and> subprocessStats monitor' = []))
       \<and> subprocessCount (buildMetric host [] ts x) = Some 0
       \<and> processCpuUsage (buildMetric host [] ts x) = Some 0
       \<and> (psTree (os host) (process_pid (os host)) = Inr children
            \<longrightarrow> collectSubprocessStats_direct (runtime host) (os host) (allExtensions host) = Inr [])"
proof -
  have a: "collectSubprocessStats (runtime host) fuel (os host) (allExtensions host) opts = Some (Inr [])"
    using assms by (simp add: collectSubprocessStats_def attributeChildren_sampling_fails)
  have b: "\<exists>monitor'. collectMetrics fuel host monitor
                 = Some (map (buildMetric host [] (dateNow host)) (filter userExtension (allExtensions host)),
                         monitor')
               \<and> subprocessStats monitor' = []" if "opts = None"
    using a that collectMetrics_resolved [of host fuel "[]" monitor] by simp
  have c: "collectSubprocessStats_direct (runtime host) (os host) (allExtensions host) = Inr []"
    if "psTree (os host) (process_pid (os host)) = Inr children"
    using that assms(2) by (simp add: collectSubprocessStats_direct_def attributeChildren_sampling_fails)
  from a b c show ?thesis
    by (simp add: buildMetric_no_stats)
qed

text \<open>
  A round on a machine whose sampling primitive fails with EPERM: the attribution is
  the empty map, and the one metric of the round has the subprocess count 0 and the
  process cpu 0.
\<close>

theorem sampling_failure_gives_empty_attribution_witness:
  "collectSubprocessStats (runtime busy) (Suc (Suc (Suc 0))) (os busy) (allExtensions busy) None = Some (Inr [])
   \<and> map_option (map subprocessCount \<circ> fst) (collectMetrics (Suc (Suc (Suc 0))) busy stopped) = Some [Some 0]
   \<and> map_option (map processCpuUsage \<circ> fst) (collectMetrics (Suc (Suc (Suc 0))) busy stopped) = Some [Some 0]"
proof -
  have w: "getAllDescendants (runtime busy) (Suc (Suc (Suc 0))) (psTree (os busy)) (walkRoot (os busy) None)
     = Some (Inr [proc ''200'' ''100'' ''/bin/sh'', proc ''300'' ''200'' ''/ext/a/bin/server'',
                proc ''300'' ''200'' ''/ext/a/bin/server''])"
    by (simp add: busy_def hasty_def deniedSampling_def machine_def walkRoot_def walk_machine)
  have s: "pidusage (os busy) (sampledPids (runtime busy)
              [proc ''200'' ''100'' ''/bin/sh'', proc ''300'' ''200'' ''/ext/a/bin/server'',
               proc ''300'' ''200'' ''/ext/a/bin/server'']) = Inl (Error ''EPERM'')"
    by (simp add: busy_def hasty_def deniedSampling_def machine_def)
  have u: "filter userExtension (allExtensions busy) = [extensionA]"
    by (simp add: busy_def hasty_def userExtension_def extensionA_def)
  from sampling_failure_gives_empty_attribution [OF w s, of stopped]
  show ?thesis
    by (auto simp: u buildMetric_no_stats)
qed

text \<open>
  The claim as stated fails: with one installed extension and a sampling primitive that
  fails, the attribution returns the empty map, in which the extension is not present.
\<close>

theorem sampling_failure_counterexample:
  "collectSubprocessStats node (Suc (Suc (Suc 0))) deniedSampling [extensionA] None = Some (Inr [])"
  unfolding collectSubprocessStats_def walkRoot_def deniedSampling_def machine_def
  by (simp add: walk_machine)
     (simp add: attributeChildren_def sampledPids_def proc_def node_def Number_200 Number_300 Let_def)

text \<open>
  Claim C7 fails on the code. The listing primitive reports the process 300 under its
  parent 200 and again under its grandparent 100, as \<open>ps-tree\<close> does for every
  descendant. The walk pushes an entry before it asks whether its pid was visited, so
  it returns the entry of 300 twice, and the attribution counts the one process of the
  extension twice: two processes, twice its cpu, twice its memory.
\<close>

theorem walk_repeats_descendant:
  "getAllDescendants node (Suc (Suc (Suc 0))) listing 100
     = Some (Inr [proc ''200'' ''100'' ''/bin/sh'', proc ''300'' ''200'' ''/ext/a/bin/server'',
                  proc ''300'' ''200'' ''/ext/a/bin/server''])
   \<and> \<not> distinct (map PID [proc ''200'' ''100'' ''/bin/sh'', proc ''300'' ''200'' ''/ext/a/bin/server'',
                  proc ''300'' ''200'' ''/ext/a/bin/server''])
   \<and> collectSubprocessStats node (Suc (Suc (Suc 0))) machine [extensionA] None
     = Some (Inr [(''Pub.A'', \<lparr>stats_extensionId = ''Pub.A'', totalCpu = 14, totalMemory = 6, processCount = 2,
          processes = [\<lparr>pid = 300, ppid = Finite 200, command = ''/ext/a/bin/server'', cpu = 7, memory = 3\<rparr>,
                       \<lparr>pid = 300, ppid = Finite 200, command = ''/ext/a/bin/server'', cpu = 7, memory = 3\<rparr>]\<rparr>)])"
proof -
  have "collectSubprocessStats node (Suc (Suc (Suc 0))) machine [extensionA] None
     = Some (Inr [(''Pub.A'', \<lparr>stats_extensionId = ''Pub.A'', totalCpu = 14, totalMemory = 6, processCount = 2,
          processes = [\<lparr>pid = 300, ppid = Finite 200, command = ''/ext/a/bin/server'', cpu = 7, memory = 3\<rparr>,
                       \<lparr>pid = 300, ppid = Finite 200, command = ''/ext/a/bin/server'', cpu = 7, memory = 3\<rparr>]\<rparr>)])"
    unfolding collectSubprocessStats_def walkRoot_def machine_def
    by (simp add: walk_machine)
       (simp add: attributeChildren_def sampledPids_def proc_def Number_200 Number_300 sampling_def
         attributeChild_def ppidOf_def resolveCommand_def orElse_def indexExtension_def extensionA_def
         displayNameOf_def findBestMatch_def considerExtension_def normalizePath_def node_def
         asciiLowerCase_def fl64_eval)
  then show ?thesis
    by (simp add: walk_machine)
qed

text \<open>
  The walk on the listing that fails on 400, with any fuel from 3 on.
\<close>

lemma walk_vanishing_fuel:
  "getAllDescendants node (Suc (Suc (Suc fuel))) vanishing 100 = Some (Inl (Error ''ESRCH''))"
  by (simp add: getAllDescendants_def node_def vanishing_def proc_def Number_200 Number_300 Number_400)

lemma vanishing_table: "listsWithin node vanishing {100, 200, 300, 400}"
  by (auto simp: listsWithin_def validPid_def vanishing_def proc_def node_def
      Number_200 Number_300 Number_400 split: if_splits)

lemma vanishing_descended: "400 \<in> descended node vanishing 100"
proof -
  have "vanishing 100 = Inr [proc ''200'' ''100'' ''/bin/sh'', proc ''400'' ''100'' ''/bin/ls'']"
    by (simp add: vanishing_def)
  moreover have "validPid node (proc ''400'' ''100'' ''/bin/ls'') 400"
    by (simp add: validPid_def node_def proc_def Number_400)
  ultimately show ?thesis
    using descended.child [OF descended.root, of vanishing 100 _ "proc ''400'' ''100'' ''/bin/ls''" node 400]
    by simp
qed

lemma vanishing_only_ESRCH: "vanishing q = Inl e \<Longrightarrow> e = Error ''ESRCH''"
  by (simp add: vanishing_def split: if_splits)

text \<open>
  Claim C8, as amended. A walk that returns a list has met no failure of the listing
  primitive: not at the root, not at the pid of any entry it returns, not at any pid
  that is the root or is listed, with a pid the walk descends into, under a pid so
  reached. A rejected walk rejects with the failure of the listing of such a pid, and
  nothing collected before it is returned; a failure at the root rejects the walk at
  once. Over a finite process table the walk returns once the fuel exceeds the size
  of the table, and it is a rejection whenever the listing of a pid so reached fails.
  A rejected walk rejects \<open>collectSubprocessStats\<close>; \<open>collectMetrics\<close> catches that,
  writes the error to the output channel, and completes the round with the empty map
  of subprocess statistics and one metric for every extension that is not built in.
\<close>

theorem listing_failure_rejects_walk:
  "(getAllDescendants rt fuel gpt r0 = Some (Inr cs)
      \<longrightarrow> (\<exists>l. gpt r0 = Inr l)
          \<and> (\<forall>c\<in>set cs. \<forall>q. validPid rt c q \<longrightarrow> (\<exists>l. gpt q = Inr l))
          \<and> (\<forall>q\<in>descended rt gpt r0. \<exists>l. gpt q = Inr l))
   \<and> (getAllDescendants rt fuel gpt r0 = Some (Inl e) \<longrightarrow> (\<exists>q\<in>descended rt gpt r0. gpt q = Inl e))
   \<and> (gpt r0 = Inl e \<longrightarrow> getAllDescendants rt (Suc fuel) gpt r0 = Some (Inl e))
   \<and> (finite U \<and> r0 \<in> U \<and> listsWithin rt gpt U \<and> card U < fuel
      \<longrightarrow> (\<exists>r. getAllDescendants rt fuel gpt r0 = Some r))
   \<and> (finite U \<and> r0 \<in> U \<and> listsWithin rt gpt U \<and> card U < fuel
        \<and> p \<in> descended rt gpt r0 \<and> gpt p = Inl e'
      \<longrightarrow> (\<exists>e''. getAllDescendants rt fuel gpt r0 = Some (Inl e'')))
   \<and> (getAllDescendants rt fuel (psTree sys) (walkRoot sys opts) = Some (Inl e)
      \<longrightarrow> collectSubprocessStats rt fuel sys exts opts = Some (Inl e))
   \<and> (collectSubprocessStats (runtime host) fuel (os host) (allExtensions host) None = Some (Inl e)
      \<longrightarrow> (\<exists>monitor'. collectMetrics fuel host monitor
               = Some (map (buildMetric host [] (dateNow host)) (filter userExtension (allExtensions host)),
                       monitor')
             \<and> subprocessStats monitor' = []
             \<and> ErrorCollectingSubprocessStats e \<in> set (outputChannel monitor')))"
proof -
  have a: "(\<exists>l. gpt r0 = Inr l)
          \<and> (\<forall>c\<in>set cs. \<forall>q. validPid rt c q \<longrightarrow> (\<exists>l. gpt q = Inr l))
          \<and> (\<forall>q\<in>descended rt gpt r0. \<exists>l. gpt q = Inr l)"
    if "getAllDescendants rt fuel gpt r0 = Some (Inr cs)"
    using that by (rule getAllDescendants_all_listed)
  have a': "\<exists>q\<in>descended rt gpt r0. gpt q = Inl e"
    if "getAllDescendants rt fuel gpt r0 = Some (Inl e)"
    using that by (rule getAllDescendants_rejected)
  have b: "getAllDescendants rt (Suc fuel) gpt r0 = Some (Inl e)" if "gpt r0 = Inl e"
    using that by (rule getAllDescendants_root_fails)
  have c: "\<exists>r. getAllDescendants rt fuel gpt r0 = Some r"
    if "finite U \<and> r0 \<in> U \<and> listsWithin rt gpt U \<and> card U < fuel"
    using that getAllDescendants_returns [of U r0 rt gpt fuel] by blast
  have c': "\<exists>e''. getAllDescendants rt fuel gpt r0 = Some (Inl e'')"
    if "finite U \<and> r0 \<in> U \<and> listsWithin rt gpt U \<and> card U < fuel
        \<and> p \<in> descended rt gpt r0 \<and> gpt p = Inl e'"
    using that getAllDescendants_fails_on_descended_failure [of U r0 rt gpt fuel p e'] by blast
  have d: "collectSubprocessStats rt fuel sys exts opts = Some (Inl e)"
    if "getAllDescendants rt fuel (psTree sys) (walkRoot sys opts) = Some (Inl e)"
    using that by (simp add: collectSubprocessStats_def)
  have f: "\<exists>monitor'. collectMetrics fuel host monitor
               = Some (map (buildMetric host [] (dateNow host)) (filter userExtension (allExtensions host)),
                       monitor')
             \<and> subprocessStats monitor' = []
             \<and> ErrorCollectingSubprocessStats e \<in> set (outputChannel monitor')"
    if "collectSubprocessStats (runtime host) fuel (os host) (allExtensions host) None = Some (Inl e)"
    using that by (rule collectMetrics_rejected)
  from a a' b c c' d f show ?thesis by blast
qed

text \<open>
  The walk from 100 over the table of the pids 100, 200, 300 and 400, where the
  listing of 400 fails after 200 and 300 were collected: the walk is rejected with
  that failure, so is the attribution, and the round returns one metric with no
  subprocess and the error in the output channel. On the listing that does not fail
  the walk returns its list, and the listing of the collected pid 300 has not failed.
\<close>

theorem listing_failure_rejects_walk_witness:
  "400 \<in> descended node vanishing 100
   \<and> vanishing 400 = Inl (Error ''ESRCH'')
   \<and> card {100, 200, 300, 400 :: real} < Suc (Suc (Suc (Suc (Suc 0))))
   \<and> getAllDescendants node (Suc (Suc (Suc (Suc (Suc 0))))) vanishing 100 = Some (Inl (Error ''ESRCH''))
   \<and> collectSubprocessStats node (Suc (Suc (Suc (Suc (Suc 0))))) (os flaky) (allExtensions flaky) None
       = Some (Inl (Error ''ESRCH''))
   \<and> map_option (map subprocessCount \<circ> fst) (collectMetrics (Suc (Suc (Suc (Suc (Suc 0))))) flaky stopped)
       = Some [Some 0]
   \<and> map_option (outputChannel \<circ> snd) (collectMetrics (Suc (Suc (Suc (Suc (Suc 0))))) flaky stopped)
       = Some [ErrorCollectingSubprocessStats (Error ''ESRCH'')]
   \<and> (\<exists>l. listing 300 = Inr l)"
proof -
  let ?five = "Suc (Suc (Suc (Suc (Suc 0))))"
  note failing = listing_failure_rejects_walk
    [of node ?five vanishing 100 "[]" "Error ''ESRCH''" "{100, 200, 300, 400}" 400 "Error ''ESRCH''"
        "os flaky" None "allExtensions flaky" flaky stopped]
  note returning = listing_failure_rejects_walk
    [of node "Suc (Suc (Suc 0))" listing 100
        "[proc ''200'' ''100'' ''/bin/sh'', proc ''300'' ''200'' ''/ext/a/bin/server'',
          proc ''300'' ''200'' ''/ext/a/bin/server'']"]
  have m: "400 \<in> descended node vanishing 100"
    by (rule vanishing_descended)
  have v: "vanishing 400 = Inl (Error ''ESRCH'')"
    by (simp add: vanishing_def)
  have k: "card {100, 200, 300, 400 :: real} < ?five"
    by simp
  have h: "finite {100, 200, 300, 400 :: real} \<and> (100 :: real) \<in> {100, 200, 300, 400}
           \<and> listsWithin node vanishing {100, 200, 300, 400} \<and> card {100, 200, 300, 400 :: real} < ?five
           \<and> 400 \<in> descended node vanishing 100 \<and> vanishing 400 = Inl (Error ''ESRCH'')"
    using m v k vanishing_table by simp
  from failing h obtain e'' where e'': "getAllDescendants node ?five vanishing 100 = Some (Inl e'')"
    by blast
  have "\<exists>q\<in>descended node vanishing 100. vanishing q = Inl e''"
    using listing_failure_rejects_walk [of node ?five vanishing 100 _ e''] e'' by blast
  then have "e'' = Error ''ESRCH''"
    using vanishing_only_ESRCH by blast
  with e'' have w: "getAllDescendants node ?five vanishing 100 = Some (Inl (Error ''ESRCH''))"
    by simp
  have eqs: "psTree (os flaky) = vanishing" "walkRoot (os flaky) None = 100" "runtime flaky = node"
    by (simp_all add: flaky_def busy_def hasty_def machine_def walkRoot_def)
  from failing w eqs
  have c: "collectSubprocessStats node ?five (os flaky) (allExtensions flaky) None = Some (Inl (Error ''ESRCH''))"
    by simp
  with failing eqs obtain monitor' where r:
    "collectMetrics ?five flaky stopped
       = Some (map (buildMetric flaky [] (dateNow flaky)) (filter userExtension (allExtensions flaky)), monitor')"
    by auto
  have u: "filter userExtension (allExtensions flaky) = [extensionA]"
    by (simp add: flaky_def busy_def hasty_def userExtension_def extensionA_def)
  have n: "map_option (map subprocessCount \<circ> fst) (collectMetrics ?five flaky stopped) = Some [Some 0]"
    using r by (simp add: u buildMetric_no_stats)
  have o: "map_option (outputChannel \<circ> snd) (collectMetrics ?five flaky stopped)
       = Some [ErrorCollectingSubprocessStats (Error ''ESRCH'')]"
    using c
    by (simp add: collectMetrics_def Let_def eqs)
       (simp add: flaky_def busy_def hasty_def stopped_def collectExtension_def extensionA_def
          buildMetric_def checkAlerts_def Let_def unset_def getConfig_def displayNameOf_def
          CPU_ALERT_THRESHOLD_def MEMORY_ALERT_THRESHOLD_def)
  have "validPid node (proc ''300'' ''200'' ''/ext/a/bin/server'') 300"
    by (simp add: validPid_def node_def proc_def Number_300)
  with returning walk_machine have l: "\<exists>l. listing 300 = Inr l"
    by simp
  from m v k w c n o l show ?thesis
    by blast
qed

text \<open>
  The claim as stated fails: the listing fails on the pid 400 after 200 and 300 were
  collected, and the walk returns the failure, not the entries collected before it.
\<close>

theorem listing_failure_counterexample:
  "getAllDescendants node (Suc (Suc (Suc 0))) vanishing 100 = Some (Inl (Error ''ESRCH''))"
  by (rule walk_vanishing)

section \<open>The scheduler\<close>

lemma isMonitoringActive_foldl_collectExtension:
  "isMonitoringActive (snd (foldl (collectExtension host stats ts) acc exts)) = isMonitoringActive (snd acc)"
  by (induction exts arbitrary: acc) (simp_all add: collectExtension_def Let_def)

lemma collectMetrics_keeps:
  assumes "collectMetrics fuel host monitor = Some r"
  shows "isMonitoringActive (snd r) = isMonitoringActive monitor
       \<and> set (outputChannel monitor) \<subseteq> set (outputChannel (snd r))"
proof -
  from assms obtain outcome where
    o: "collectSubprocessStats (runtime host) fuel (os host) (allExtensions host) None = Some outcome"
    by (auto simp: collectMetrics_def split: option.splits)
  define caught where "caught = (case outcome of
       Inl e \<Rightarrow> ([], monitor\<lparr>outputChannel := outputChannel monitor @ [ErrorCollectingSubprocessStats e]\<rparr>)
     | Inr stats \<Rightarrow> (stats, monitor))"
  define monitor1 where "monitor1 = (snd caught)\<lparr>subprocessStats := fst caught\<rparr>"
  define looped where
    "looped = foldl (collectExtension host (fst caught) (dateNow host)) ([], monitor1) (allExtensions host)"
  have r: "r = (fst looped, (snd looped)\<lparr>currentMetrics := fst looped\<rparr>)"
    using assms o by (simp add: collectMetrics_def Let_def caught_def monitor1_def looped_def)
  have c: "isMonitoringActive (snd caught) = isMonitoringActive monitor
         \<and> set (outputChannel monitor) \<subseteq> set (outputChannel (snd caught))"
    by (cases outcome) (auto simp: caught_def)
  have "set (outputChannel (snd ([] :: ExtensionMetrics list, monitor1))) \<subseteq> set (outputChannel (snd looped))"
    unfolding looped_def by (rule outputChannel_foldl_collectExtension)
  then have "set (outputChannel monitor) \<subseteq> set (outputChannel (snd looped))"
    using c by (auto simp: monitor1_def)
  moreover have "isMonitoringActive (snd looped) = isMonitoringActive monitor"
    using c by (simp add: looped_def isMonitoringActive_foldl_collectExtension monitor1_def)
  ultimately show ?thesis
    by (simp add: r)
qed

text \<open>
  Claim C9, as amended. A start from the stopped state that returns leaves the monitor
  active; the delay it has given to \<open>setInterval\<close>, which it has also written to the
  output channel, is the stored interval as it is, or the default 5000 when none is
  stored, and the timer is armed at the period the runtime arms for that delay. No
  bound is applied to the stored value. The start returns whenever the walk of its
  first round does, whatever the interval. A start while active changes nothing.
\<close>

theorem startMonitoring_arms_configured_interval:
  "(\<not> isMonitoringActive monitor \<longrightarrow> startMonitoring fuel host monitor = Some monitor'
      \<longrightarrow> isMonitoringActive monitor'
          \<and> monitoringInterval monitor'
               = Some (timerPeriod (runtime host)
                         (getConfig (cfg_monitoringInterval (config host)) MONITORING_INTERVAL))
          \<and> StartingMonitoring (getConfig (cfg_monitoringInterval (config host)) MONITORING_INTERVAL)
               \<in> set (outputChannel monitor'))
   \<and> (\<not> isMonitoringActive monitor
        \<longrightarrow> collectSubprocessStats (runtime host) fuel (os host) (allExtensions host) None \<noteq> None
        \<longrightarrow> startMonitoring fuel host monitor \<noteq> None)
   \<and> (isMonitoringActive monitor \<longrightarrow> startMonitoring fuel host monitor = Some monitor)
   \<and> getConfig (Some v) MONITORING_INTERVAL = v
   \<and> getConfig None MONITORING_INTERVAL = 5000"
proof -
  let ?interval = "getConfig (cfg_monitoringInterval (config host)) MONITORING_INTERVAL"
  let ?monitor1 = "monitor\<lparr>isMonitoringActive := True,
                            outputChannel := outputChannel monitor @ [StartingMonitoring ?interval]\<rparr>"
  have a: "isMonitoringActive monitor'
          \<and> monitoringInterval monitor' = Some (timerPeriod (runtime host) ?interval)
          \<and> StartingMonitoring ?interval \<in> set (outputChannel monitor')"
    if "\<not> isMonitoringActive monitor" and "startMonitoring fuel host monitor = Some monitor'"
  proof -
    from that obtain r where r: "collectMetrics fuel host ?monitor1 = Some r"
      and m: "monitor' = (snd r)\<lparr>monitoringInterval := Some (timerPeriod (runtime host) ?interval)\<rparr>"
      by (auto simp: startMonitoring_def Let_def split: option.splits)
    from collectMetrics_keeps [OF r] have "isMonitoringActive (snd r)"
      and "StartingMonitoring ?interval \<in> set (outputChannel (snd r))"
      by auto
    with m show ?thesis by simp
  qed
  have b: "startMonitoring fuel host monitor \<noteq> None"
    if "\<not> isMonitoringActive monitor"
      and "collectSubprocessStats (runtime host) fuel (os host) (allExtensions host) None \<noteq> None"
    using that
    by (auto simp: startMonitoring_def collectMetrics_def Let_def split: option.splits)
  have c: "startMonitoring fuel host monitor = Some monitor" if "isMonitoringActive monitor"
    using that by (simp add: startMonitoring_def)
  from a b c show ?thesis
    by (simp add: getConfig_def MONITORING_INTERVAL_def)
qed

lemma quiet_round:
  "collectSubprocessStats node (Suc 0) quiet [] None \<noteq> None"
  by (simp add: collectSubprocessStats_def walkRoot_def getAllDescendants_def quiet_def)

text \<open>
  Starts on Node.js with the intervals 500, 0 and 3000000000 stored: each start
  returns with the monitor active and the stored value given as the delay; the timer
  is armed at 500 for the first and at 1 for the other two.
\<close>

theorem startMonitoring_arms_configured_interval_witness:
  "map_option monitoringInterval (startMonitoring (Suc 0) hasty stopped) = Some (Some 500)
   \<and> map_option isMonitoringActive (startMonitoring (Suc 0) hasty stopped) = Some True
   \<and> map_option monitoringInterval (startMonitoring (Suc 0) zeroDelay stopped) = Some (Some 1)
   \<and> map_option monitoringInterval (startMonitoring (Suc 0) hugeDelay stopped) = Some (Some 1)
   \<and> (\<exists>monitor'. startMonitoring (Suc 0) hugeDelay stopped = Some monitor'
         \<and> StartingMonitoring 3000000000 \<in> set (outputChannel monitor'))"
proof -
  have s: "\<not> isMonitoringActive stopped"
    by (simp add: stopped_def)
  have c: "collectSubprocessStats (runtime hasty) (Suc 0) (os hasty) (allExtensions hasty) None \<noteq> None"
    "collectSubprocessStats (runtime zeroDelay) (Suc 0) (os zeroDelay) (allExtensions zeroDelay) None \<noteq> None"
    "collectSubprocessStats (runtime hugeDelay) (Suc 0) (os hugeDelay) (allExtensions hugeDelay) None \<noteq> None"
    using quiet_round by (simp_all add: hasty_def zeroDelay_def hugeDelay_def)
  have g: "timerPeriod (runtime hasty) (getConfig (cfg_monitoringInterval (config hasty)) MONITORING_INTERVAL) = 500"
    "timerPeriod (runtime zeroDelay) (getConfig (cfg_monitoringInterval (config zeroDelay)) MONITORING_INTERVAL) = 1"
    "timerPeriod (runtime hugeDelay) (getConfig (cfg_monitoringInterval (config hugeDelay)) MONITORING_INTERVAL) = 1"
    "getConfig (cfg_monitoringInterval (config hugeDelay)) MONITORING_INTERVAL = 3000000000"
    by (simp_all add: hasty_def zeroDelay_def hugeDelay_def unset_def getConfig_def node_def nodeTimerPeriod_def)
  from startMonitoring_arms_configured_interval [of stopped "Suc 0" hasty] s c(1)
  obtain m1 where m1: "startMonitoring (Suc 0) hasty stopped = Some m1"
    by auto
  from startMonitoring_arms_configured_interval [of stopped "Suc 0" hasty m1] s m1 g(1)
  have h: "map_option monitoringInterval (startMonitoring (Suc 0) hasty stopped) = Some (Some 500)
     \<and> map_option isMonitoringActive (startMonitoring (Suc 0) hasty stopped) = Some True"
    by simp
  from startMonitoring_arms_configured_interval [of stopped "Suc 0" zeroDelay] s c(2)
  obtain m2 where m2: "startMonitoring (Suc 0) zeroDelay stopped = Some m2"
    by auto
  from startMonitoring_arms_configured_interval [of stopped "Suc 0" zeroDelay m2] s m2 g(2)
  have z: "map_option monitoringInterval (startMonitoring (Suc 0) zeroDelay stopped) = Some (Some 1)"
    by simp
  from startMonitoring_arms_configured_interval [of stopped "Suc 0" hugeDelay] s c(3)
  obtain m3 where m3: "startMonitoring (Suc 0) hugeDelay stopped = Some m3"
    by auto
  from startMonitoring_arms_configured_interval [of stopped "Suc 0" hugeDelay m3] s m3 g(3) g(4)
  have b: "map_option monitoringInterval (startMonitoring (Suc 0) hugeDelay stopped) = Some (Some 1)
     \<and> (\<exists>monitor'. startMonitoring (Suc 0) hugeDelay stopped = Some monitor'
         \<and> StartingMonitoring 3000000000 \<in> set (outputChannel monitor'))"
    by simp
  from h z b show ?thesis by blast
qed

text \<open>
  The claim as stated fails: with the interval 500 stored, the delay given to the timer
  is 500 and Node.js arms the timer at 500, which is not within 1000 to 60000; with
  the interval 0 stored it arms the timer at 1.
\<close>

theorem startMonitoring_out_of_range_counterexample:
  "map_option monitoringInterval (startMonitoring (Suc 0) hasty stopped) = Some (Some 500)
   \<and> \<not> (1000 \<le> (500 :: real) \<and> (500 :: real) \<le> 60000)
   \<and> map_option monitoringInterval (startMonitoring (Suc 0) zeroDelay stopped) = Some (Some 1)
   \<and> \<not> (1000 \<le> (1 :: real) \<and> (1 :: real) \<le> 60000)"
  by (simp add: startMonitoring_def collectMetrics_def collectSubprocessStats_def walkRoot_def
      getAllDescendants_def hasty_def zeroDelay_def quiet_def stopped_def unset_def getConfig_def
      attributeChildren_def Let_def node_def nodeTimerPeriod_def)

end
